theory Spec2Isabelle
  imports Main "HOL-Library.Word"
begin

section \<open>Data model (internal/decompile: TaskStatus, Task, TaskStore)\<close>

text \<open>
  \<^verbatim>\<open>TaskStatus\<close> is a Go string type with four constants; the table's CHECK constraint
  admits exactly these four values.
\<close>

datatype TaskStatus = StatusPending | StatusInFlight | StatusCompleted | StatusFailed

text \<open>
  \<^verbatim>\<open>Task\<close> is both the in-memory struct and the shape of one row of
  \<^verbatim>\<open>decompilation_tasks\<close>. \<^verbatim>\<open>ID\<close> is an \<^verbatim>\<open>int64\<close> primary key, \<^verbatim>\<open>Retries\<close> a Go
  \<^verbatim>\<open>int\<close> (64 bits, two's complement: \<open>+\<close> wraps and \<open><s\<close> is the signed comparison),
  the two \<^verbatim>\<open>sql.NullString\<close> fields are options, timestamps are clock readings.
  A \<^verbatim>\<open>Task\<close> built in memory with no status has the empty string there, which no row
  can hold; the only place that receives such tasks, \<^verbatim>\<open>AddTasks\<close>, does not read the field.
\<close>

record Task =
  ID :: int
  ClassName :: string
  SymbolName :: string
  AssemblyCode :: string
  Status :: TaskStatus
  Retries :: "64 word"
  DecompiledSource :: "string option"
  ErrorMessage :: "string option"
  CreatedAt :: nat
  UpdatedAt :: nat

text \<open>
  The database behind \<^verbatim>\<open>TaskStore.db\<close>: the rows of \<^verbatim>\<open>decompilation_tasks\<close> in rowid
  order, and the AUTOINCREMENT counter (the largest rowid ever handed out).
\<close>

record TaskStore =
  table :: "Task list"
  sequence :: int

text \<open>
  The places where the SQL driver can return an error. An operation receives the driver's
  behaviour as a predicate on these places; \<open>no_faults\<close> is a healthy store. A context
  that is already cancelled shows here as a failing begin, query or exec.
\<close>

datatype fault =
    FailOpen | FailPing | FailBegin | FailPrepare | FailQuery
  | FailScan nat | FailRowsErr | FailExec nat | FailCommit

text \<open>One constructor per \<^verbatim>\<open>fmt.Errorf\<close> wrapper (or raw driver error) of the store.\<close>

datatype store_error =
    ErrOpen | ErrConnect | ErrInitSchema
  | ErrBeginTx | ErrPrepare | ErrExecTask string | ErrCommit
  | ErrQueryPending | ErrScanRow | ErrRowsIteration | ErrUpdateInFlight
  | ErrResetInFlight | ErrUpdateSuccess | ErrUpdateFailure

definition no_faults :: "fault \<Rightarrow> bool" where
  "no_faults = (\<lambda>_. False)"

section \<open>Store operations\<close>

text \<open>
  \<^verbatim>\<open>initSchema\<close>: CREATE TABLE IF NOT EXISTS. A database file without the table is
  \<open>None\<close>; an existing table is left as it is.
\<close>

definition initSchema :: "(fault \<Rightarrow> bool) \<Rightarrow> TaskStore option \<Rightarrow> TaskStore option \<times> store_error option" where
  "initSchema f file =
     (if f (FailExec 0) then (file, Some ErrInitSchema)
      else (case file of
              None \<Rightarrow> (Some \<lparr>table = [], sequence = 0\<rparr>, None)
            | Some s \<Rightarrow> (Some s, None)))"

text \<open>\<^verbatim>\<open>NewTaskStore\<close>: open, ping, then \<^verbatim>\<open>initSchema\<close>.\<close>

definition NewTaskStore :: "(fault \<Rightarrow> bool) \<Rightarrow> TaskStore option \<Rightarrow> TaskStore option \<times> store_error option" where
  "NewTaskStore f file =
     (if f FailOpen then (file, Some ErrOpen)
      else if f FailPing then (file, Some ErrConnect)
      else initSchema f file)"

text \<open>
  \<^verbatim>\<open>ResetInFlightTasks\<close>: one statement,
  \<^verbatim>\<open>UPDATE decompilation_tasks SET status = 'pending' WHERE status = 'in_flight'\<close>.
\<close>

definition ResetInFlightTasks :: "(fault \<Rightarrow> bool) \<Rightarrow> TaskStore \<Rightarrow> TaskStore \<times> store_error option" where
  "ResetInFlightTasks f s =
     (if f (FailExec 0) then (s, Some ErrResetInFlight)
      else (s\<lparr>table := map (\<lambda>r. if Status r = StatusInFlight
                                  then r\<lparr>Status := StatusPending\<rparr> else r) (table s)\<rparr>,
            None))"

text \<open>
  The rowid an AUTOINCREMENT insert receives: one more than the largest rowid that is or
  ever was in the table (ids are unbounded here; the table never comes near 2^63 rows).
\<close>

definition next_id :: "TaskStore \<Rightarrow> int" where
  "next_id s = max (sequence s) (foldr max (map ID (table s)) 0) + 1"

text \<open>
  One execution of the prepared statement of \<^verbatim>\<open>AddTasks\<close>,
  \<^verbatim>\<open>INSERT OR IGNORE INTO decompilation_tasks (class_name, symbol_name, assembly_code, status)\<close>:
  a row that would violate UNIQUE(class_name, symbol_name) is skipped; the columns not
  listed take their defaults (retries 0, the two texts NULL, both timestamps now). The
  rowid is drawn before the constraint is looked at, so a skipped insert still moves the
  AUTOINCREMENT counter on: the table stays as it is, the id is used up.
\<close>

definition insert_or_ignore :: "nat \<Rightarrow> TaskStore \<Rightarrow> string \<Rightarrow> string \<Rightarrow> string \<Rightarrow> TaskStatus \<Rightarrow> TaskStore" where
  "insert_or_ignore now s cls symb asm st =
     (if \<exists>r \<in> set (table s). ClassName r = cls \<and> SymbolName r = symb
      then s\<lparr>sequence := next_id s\<rparr>
      else s\<lparr>table := table s @
                [\<lparr>ID = next_id s, ClassName = cls, SymbolName = symb, AssemblyCode = asm,
                  Status = st, Retries = 0, DecompiledSource = None, ErrorMessage = None,
                  CreatedAt = now, UpdatedAt = now\<rparr>],
             sequence := next_id s\<rparr>)"

text \<open>The loop of \<^verbatim>\<open>AddTasks\<close> inside the transaction; \<open>i\<close> counts the statements executed.\<close>

fun exec_inserts :: "(fault \<Rightarrow> bool) \<Rightarrow> nat \<Rightarrow> nat \<Rightarrow> TaskStore \<Rightarrow> Task list \<Rightarrow> store_error + TaskStore" where
  "exec_inserts f now i s [] = Inr s"
| "exec_inserts f now i s (t # ts) =
     (if f (FailExec i) then Inl (ErrExecTask (SymbolName t))
      else exec_inserts f now (Suc i)
             (insert_or_ignore now s (ClassName t) (SymbolName t) (AssemblyCode t) StatusPending) ts)"

text \<open>
  \<^verbatim>\<open>AddTasks\<close>: begin, prepare, the loop, commit. Every error return runs the deferred
  \<^verbatim>\<open>tx.Rollback()\<close>, which leaves the database as it was; so does a failed commit.
\<close>

definition AddTasks :: "(fault \<Rightarrow> bool) \<Rightarrow> nat \<Rightarrow> TaskStore \<Rightarrow> Task list \<Rightarrow> TaskStore \<times> store_error option" where
  "AddTasks f now s tasks =
     (if f FailBegin then (s, Some ErrBeginTx)
      else if f FailPrepare then (s, Some ErrPrepare)
      else (case exec_inserts f now 0 s tasks of
              Inl e \<Rightarrow> (s, Some e)
            | Inr s' \<Rightarrow> if f FailCommit then (s, Some ErrCommit) else (s', None)))"

text \<open>
  The SELECT of \<^verbatim>\<open>FetchPendingBatch\<close>: the pending rows in table order, cut by LIMIT.
  SQLite reads a negative LIMIT as no limit.
\<close>

definition select_pending :: "TaskStore \<Rightarrow> int \<Rightarrow> Task list" where
  "select_pending s batchSize =
     (let ps = filter (\<lambda>r. Status r = StatusPending) (table s)
      in if batchSize < 0 then ps else take (nat batchSize) ps)"

text \<open>
  The \<^verbatim>\<open>rows.Next()\<close>/\<^verbatim>\<open>rows.Scan\<close> loop: the eight selected columns are copied into a
  fresh \<^verbatim>\<open>Task\<close>, whose \<^verbatim>\<open>DecompiledSource\<close> and \<^verbatim>\<open>ErrorMessage\<close> stay at their zero
  value. The first failing scan ends the call.
\<close>

fun scan_rows :: "(fault \<Rightarrow> bool) \<Rightarrow> nat \<Rightarrow> Task list \<Rightarrow> store_error + Task list" where
  "scan_rows f i [] = Inr []"
| "scan_rows f i (r # rs) =
     (if f (FailScan i) then Inl ErrScanRow
      else (case scan_rows f (Suc i) rs of
              Inl e \<Rightarrow> Inl e
            | Inr ts \<Rightarrow> Inr (r\<lparr>DecompiledSource := None, ErrorMessage := None\<rparr> # ts)))"

text \<open>
  \<^verbatim>\<open>UPDATE decompilation_tasks SET status = 'in_flight', updated_at = CURRENT_TIMESTAMP
  WHERE id IN (...)\<close>.
\<close>

definition mark_in_flight :: "nat \<Rightarrow> int list \<Rightarrow> TaskStore \<Rightarrow> TaskStore" where
  "mark_in_flight now taskIDs s =
     s\<lparr>table := map (\<lambda>r. if ID r \<in> set taskIDs
                          then r\<lparr>Status := StatusInFlight, UpdatedAt := now\<rparr> else r) (table s)\<rparr>"

text \<open>
  \<^verbatim>\<open>FetchPendingBatch\<close>. With no row scanned it returns the empty slice before any
  write (the deferred rollback ends the transaction); every error return rolls back.
\<close>

definition FetchPendingBatch :: "(fault \<Rightarrow> bool) \<Rightarrow> nat \<Rightarrow> TaskStore \<Rightarrow> int \<Rightarrow> TaskStore \<times> (store_error + Task list)" where
  "FetchPendingBatch f now s batchSize =
     (if f FailBegin then (s, Inl ErrBeginTx)
      else if f FailQuery then (s, Inl ErrQueryPending)
      else (case scan_rows f 0 (select_pending s batchSize) of
              Inl e \<Rightarrow> (s, Inl e)
            | Inr tasks \<Rightarrow>
                if f FailRowsErr then (s, Inl ErrRowsIteration)
                else if length tasks = 0 then (s, Inr [])
                else (let taskIDs = map ID tasks
                      in if f (FailExec 0) then (s, Inl ErrUpdateInFlight)
                         else if f FailCommit then (s, Inl ErrCommit)
                         else (mark_in_flight now taskIDs s, Inr tasks))))"

text \<open>
  \<^verbatim>\<open>UpdateTaskSuccess\<close>: one UPDATE ... WHERE id = ?. The number of rows affected is not
  looked at.
\<close>

definition UpdateTaskSuccess :: "(fault \<Rightarrow> bool) \<Rightarrow> nat \<Rightarrow> TaskStore \<Rightarrow> int \<Rightarrow> string \<Rightarrow> TaskStore \<times> store_error option" where
  "UpdateTaskSuccess f now s taskID decompiledSource =
     (if f (FailExec 0) then (s, Some ErrUpdateSuccess)
      else (s\<lparr>table := map (\<lambda>r. if ID r = taskID
                                  then r\<lparr>Status := StatusCompleted,
                                         DecompiledSource := Some decompiledSource,
                                         UpdatedAt := now\<rparr>
                                  else r) (table s)\<rparr>,
            None))"

text \<open>\<^verbatim>\<open>UpdateTaskFailure\<close>: one UPDATE ... WHERE id = ?.\<close>

definition UpdateTaskFailure :: "(fault \<Rightarrow> bool) \<Rightarrow> nat \<Rightarrow> TaskStore \<Rightarrow> int \<Rightarrow> string \<Rightarrow> 64 word \<Rightarrow> TaskStore \<times> store_error option" where
  "UpdateTaskFailure f now s taskID errorMessage retryCount =
     (if f (FailExec 0) then (s, Some ErrUpdateFailure)
      else (s\<lparr>table := map (\<lambda>r. if ID r = taskID
                                  then r\<lparr>Status := StatusFailed,
                                         ErrorMessage := Some errorMessage,
                                         Retries := retryCount,
                                         UpdatedAt := now\<rparr>
                                  else r) (table s)\<rparr>,
            None))"

text \<open>\<^verbatim>\<open>GetProgress\<close>: the two counting queries.\<close>

definition GetProgress :: "TaskStore \<Rightarrow> nat \<times> nat" where
  "GetProgress s = (length (filter (\<lambda>r. Status r = StatusCompleted) (table s)), length (table s))"

text \<open>The number of rows in a given status, and the row stored under an id.\<close>

definition count_status :: "TaskStatus \<Rightarrow> TaskStore \<Rightarrow> nat" where
  "count_status st s = length (filter (\<lambda>r. Status r = st) (table s))"

definition find_row :: "TaskStore \<Rightarrow> int \<Rightarrow> Task option" where
  "find_row s i = find (\<lambda>r. ID r = i) (table s)"

section \<open>The model client's types and the prompt (worker.go)\<close>

text \<open>\<^verbatim>\<open>DecompiledResult\<close>: one element of the array the model replies with.\<close>

record DecompiledResult =
  res_SymbolName :: string
  res_DecompiledSource :: string
  res_Success :: bool
  res_ErrorMessage :: string

text \<open>
  What \<^verbatim>\<open>encoding/json\<close> sees of a Go value: strings, slices and structs (as the list of
  their JSON keys and field values) are encodable; channels, functions and complex
  numbers are the values for which \<^verbatim>\<open>json.Marshal\<close> returns an error.
\<close>

datatype go_value =
    GoString string
  | GoSlice "go_value list"
  | GoStruct "(string \<times> go_value) list"
  | GoChan | GoFunc | GoComplex

datatype json_error = UnsupportedTypeError

definition hex :: "nat \<Rightarrow> char" where
  "hex n = ''0123456789abcdef'' ! (n mod 16)"

definition backslash :: char where
  "backslash = CHR 0x5C"

text \<open>
  A byte below 0x80 in a JSON string, with HTML escaping on (the default of
  \<^verbatim>\<open>json.Marshal\<close>): quote and backslash are escaped with a backslash, newline, carriage
  return and tab have short escapes, the other control bytes and \<^verbatim>\<open><\<close>, \<^verbatim>\<open>>\<close>, \<^verbatim>\<open>&\<close>
  are written as a backslash, the letter u and four hex digits.
\<close>

definition escape_ascii :: "char \<Rightarrow> string" where
  "escape_ascii c =
     (let b = (of_char c :: nat)
      in if b = 0x22 \<or> b = 0x5C then [backslash, c]
         else if b = 0x0A then [backslash, CHR ''n'']
         else if b = 0x0D then [backslash, CHR ''r'']
         else if b = 0x09 then [backslash, CHR ''t'']
         else if b < 0x20 \<or> b = 0x3C \<or> b = 0x3E \<or> b = 0x26
           then [backslash, CHR ''u'', CHR ''0'', CHR ''0'', hex (b div 16), hex (b mod 16)]
         else [c])"

definition continuation :: "nat \<Rightarrow> bool" where
  "continuation b = (0x80 \<le> b \<and> b \<le> 0xBF)"

text \<open>
  \<^verbatim>\<open>utf8.DecodeRuneInString\<close> as far as the encoder needs it: the length of the
  well-formed UTF-8 sequence the bytes start with, 0 when there is none.
\<close>

definition utf8_len :: "nat list \<Rightarrow> nat" where
  "utf8_len bs =
     (case bs of
        [] \<Rightarrow> 0
      | b0 # r \<Rightarrow>
          (let lo = (if b0 = 0xE0 then 0xA0 else if b0 = 0xF0 then 0x90 else 0x80);
               hi = (if b0 = 0xED then 0x9F else if b0 = 0xF4 then 0x8F else 0xBF);
               n = (if 0xC2 \<le> b0 \<and> b0 \<le> 0xDF then 2
                    else if 0xE0 \<le> b0 \<and> b0 \<le> 0xEF then 3
                    else if 0xF0 \<le> b0 \<and> b0 \<le> 0xF4 then 4 else 0)
           in if n = 0 \<or> length r < n - 1 then 0
              else if lo \<le> hd r \<and> hd r \<le> hi \<and> list_all continuation (take (n - 2) (tl r))
                then n else 0))"

text \<open>
  The body of a JSON string: bytes that are not valid UTF-8 become the escape of U+FFFD one at a
  time, U+2028 and U+2029 are escaped, every other multi-byte character is copied.
\<close>

fun escape_bytes :: "string \<Rightarrow> string" where
  "escape_bytes [] = []"
| "escape_bytes (c # cs) =
     (let b = (of_char c :: nat)
      in if b < 0x80 then escape_ascii c @ escape_bytes cs
         else (let n = utf8_len (b # map of_char (take 3 cs))
               in if n = 0 then backslash # ''ufffd'' @ escape_bytes cs
                  else if b = 0xE2 \<and> map of_char (take 2 cs) = [0x80, 0xA8 :: nat]
                    then backslash # ''u2028'' @ escape_bytes (drop 2 cs)
                  else if b = 0xE2 \<and> map of_char (take 2 cs) = [0x80, 0xA9 :: nat]
                    then backslash # ''u2029'' @ escape_bytes (drop 2 cs)
                  else c # take (n - 1) cs @ escape_bytes (drop (n - 1) cs)))"

definition json_quote :: "string \<Rightarrow> string" where
  "json_quote s = CHR 0x22 # escape_bytes s @ [CHR 0x22]"

text \<open>A line break followed by \<open>d\<close> levels of the two-space indent.\<close>

definition newline_indent :: "nat \<Rightarrow> string" where
  "newline_indent d = CHR 0x0A # concat (replicate d ''  '')"

fun join_with :: "string \<Rightarrow> string list \<Rightarrow> string" where
  "join_with sep [] = []"
| "join_with sep [x] = x"
| "join_with sep (x # y # ys) = x @ sep @ join_with sep (y # ys)"

text \<open>
  \<^verbatim>\<open>json.MarshalIndent(v, "", "  ")\<close> at nesting depth \<open>d\<close>: an empty slice or struct is
  written closed on the spot, otherwise one element or field per line.
\<close>

fun marshal_indent :: "nat \<Rightarrow> go_value \<Rightarrow> json_error + string"
  and marshal_elems :: "nat \<Rightarrow> go_value list \<Rightarrow> json_error + string list"
  and marshal_fields :: "nat \<Rightarrow> (string \<times> go_value) list \<Rightarrow> json_error + string list"
where
  "marshal_indent d (GoString s) = Inr (json_quote s)"
| "marshal_indent d (GoSlice vs) =
     (case marshal_elems (Suc d) vs of
        Inl e \<Rightarrow> Inl e
      | Inr es \<Rightarrow>
          if es = [] then Inr ''[]''
          else Inr (''['' @ newline_indent (Suc d)
                    @ join_with ('','' @ newline_indent (Suc d)) es
                    @ newline_indent d @ '']''))"
| "marshal_indent d (GoStruct fs) =
     (case marshal_fields (Suc d) fs of
        Inl e \<Rightarrow> Inl e
      | Inr es \<Rightarrow>
          if es = [] then Inr ''{}''
          else Inr (''{'' @ newline_indent (Suc d)
                    @ join_with ('','' @ newline_indent (Suc d)) es
                    @ newline_indent d @ ''}''))"
| "marshal_indent d GoChan = Inl UnsupportedTypeError"
| "marshal_indent d GoFunc = Inl UnsupportedTypeError"
| "marshal_indent d GoComplex = Inl UnsupportedTypeError"
| "marshal_elems d [] = Inr []"
| "marshal_elems d (v # vs) =
     (case marshal_indent d v of
        Inl e \<Rightarrow> Inl e
      | Inr x \<Rightarrow> (case marshal_elems d vs of Inl e \<Rightarrow> Inl e | Inr xs \<Rightarrow> Inr (x # xs)))"
| "marshal_fields d [] = Inr []"
| "marshal_fields d ((k, v) # fs) =
     (case marshal_indent d v of
        Inl e \<Rightarrow> Inl e
      | Inr x \<Rightarrow> (case marshal_fields d fs of
                    Inl e \<Rightarrow> Inl e
                  | Inr xs \<Rightarrow> Inr ((json_quote k @ '': '' @ x) # xs)))"

definition json_MarshalIndent :: "go_value \<Rightarrow> json_error + string" where
  "json_MarshalIndent v = marshal_indent 0 v"

text \<open>The local struct \<^verbatim>\<open>Method\<close> of \<^verbatim>\<open>formatPrompt\<close>, and how reflection presents it.\<close>

record Method =
  Method_SymbolName :: string
  Method_AssemblyCode :: string

definition Method_value :: "Method \<Rightarrow> go_value" where
  "Method_value m =
     GoStruct [(''symbol_name'', GoString (Method_SymbolName m)),
               (''assembly_code'', GoString (Method_AssemblyCode m))]"

definition preamble :: string where
  "preamble =
     ''Please decompile the following Objective-C methods. Return a JSON array where each object has ''
     @ [CHR 0x27] @ ''symbol_name'' @ [CHR 0x27] @ '', ''
     @ [CHR 0x27] @ ''decompiled_source'' @ [CHR 0x27] @ '', ''
     @ [CHR 0x27] @ ''success'' @ [CHR 0x27] @ '', and ''
     @ [CHR 0x27] @ ''error_message'' @ [CHR 0x27] @ '' fields.''
     @ [CHR 0x0A, CHR 0x0A]"

text \<open>
  \<^verbatim>\<open>formatPrompt\<close>: the preamble, then the tasks' symbols and assembly as an indented
  JSON array; an error of the encoder is returned wrapped.
\<close>

datatype prompt_error = ErrMarshalTasks json_error

definition formatPrompt :: "Task list \<Rightarrow> prompt_error + string" where
  "formatPrompt tasks =
     (let methods = map (\<lambda>task. \<lparr>Method_SymbolName = SymbolName task,
                                   Method_AssemblyCode = AssemblyCode task\<rparr>) tasks
      in case json_MarshalIndent (GoSlice (map Method_value methods)) of
           Inl err \<Rightarrow> Inl (ErrMarshalTasks err)
         | Inr jsonData \<Rightarrow> Inr (preamble @ jsonData))"

section \<open>The worker (DecompileWorker)\<close>

text \<open>
  One pass of the worker's loop makes several store calls. The driver's behaviour and the
  clock are given per call: \<open>fl k\<close> and \<open>clk k\<close> are the faults and the time of call \<open>k\<close>.
  The three loops over the claimed batch follow; the errors of the updates are dropped
  or only logged, as in the source.
\<close>

fun fail_batch_format :: "(nat \<Rightarrow> fault \<Rightarrow> bool) \<Rightarrow> (nat \<Rightarrow> nat) \<Rightarrow> nat \<Rightarrow> TaskStore \<Rightarrow> Task list \<Rightarrow> TaskStore" where
  "fail_batch_format fl clk k s [] = s"
| "fail_batch_format fl clk k s (task # tasks) =
     fail_batch_format fl clk (Suc k)
       (fst (UpdateTaskFailure (fl k) (clk k) s (ID task) ''Failed to format prompt'' (Retries task + 1)))
       tasks"

fun fail_batch_transport :: "(nat \<Rightarrow> fault \<Rightarrow> bool) \<Rightarrow> (nat \<Rightarrow> nat) \<Rightarrow> nat \<Rightarrow> TaskStore \<Rightarrow> 64 word \<Rightarrow> string \<Rightarrow> Task list \<Rightarrow> TaskStore" where
  "fail_batch_transport fl clk k s maxRetries err [] = s"
| "fail_batch_transport fl clk k s maxRetries err (task # tasks) =
     fail_batch_transport fl clk (Suc k)
       (if Retries task <s maxRetries
        then fst (UpdateTaskFailure (fl k) (clk k) s (ID task) err (Retries task + 1))
        else fst (UpdateTaskFailure (fl k) (clk k) s (ID task) ''Max retries exceeded'' (Retries task)))
       maxRetries err tasks"

text \<open>\<^verbatim>\<open>taskMap\<close>: a later task with the same symbol replaces an earlier one.\<close>

definition build_taskMap :: "Task list \<Rightarrow> (string \<rightharpoonup> Task)" where
  "build_taskMap tasks = foldl (\<lambda>m task. m(SymbolName task \<mapsto> task)) Map.empty tasks"

text \<open>The body of the loop over the results, and the loop.\<close>

definition apply_result :: "(fault \<Rightarrow> bool) \<Rightarrow> nat \<Rightarrow> TaskStore \<Rightarrow> (string \<rightharpoonup> Task) \<Rightarrow> DecompiledResult \<Rightarrow> TaskStore" where
  "apply_result f now s taskMap result =
     (case taskMap (res_SymbolName result) of
        None \<Rightarrow> s
      | Some task \<Rightarrow>
          if res_Success result
          then fst (UpdateTaskSuccess f now s (ID task) (res_DecompiledSource result))
          else fst (UpdateTaskFailure f now s (ID task) (res_ErrorMessage result) (Retries task)))"

fun apply_results :: "(nat \<Rightarrow> fault \<Rightarrow> bool) \<Rightarrow> (nat \<Rightarrow> nat) \<Rightarrow> nat \<Rightarrow> TaskStore \<Rightarrow> (string \<rightharpoonup> Task) \<Rightarrow> DecompiledResult list \<Rightarrow> TaskStore" where
  "apply_results fl clk k s taskMap [] = s"
| "apply_results fl clk k s taskMap (result # results) =
     apply_results fl clk (Suc k) (apply_result (fl k) (clk k) s taskMap result) taskMap results"

text \<open>
  What one pass of the loop did, for a pass that begins (the shutdown signal was not seen
  at the top of the loop). \<^verbatim>\<open>callLiteLLM\<close> is the HTTP exchange with the model; it enters
  as the function \<open>llm\<close> from the prompt to an error text or the parsed results.
\<close>

datatype pass = FetchError store_error | NoMoreTasks | FormatFailed | CallFailed string | Processed

definition worker_pass :: "(nat \<Rightarrow> fault \<Rightarrow> bool) \<Rightarrow> (nat \<Rightarrow> nat) \<Rightarrow> (string \<Rightarrow> string + DecompiledResult list) \<Rightarrow> TaskStore \<Rightarrow> int \<Rightarrow> 64 word \<Rightarrow> TaskStore \<times> pass" where
  "worker_pass fl clk llm s batchSize maxRetries =
     (case FetchPendingBatch (fl 0) (clk 0) s batchSize of
        (s1, Inl e) \<Rightarrow> (s1, FetchError e)
      | (s1, Inr tasks) \<Rightarrow>
          if length tasks = 0 then (s1, NoMoreTasks)
          else (case formatPrompt tasks of
                  Inl e \<Rightarrow> (fail_batch_format fl clk 1 s1 tasks, FormatFailed)
                | Inr prompt \<Rightarrow>
                    (case llm prompt of
                       Inl err \<Rightarrow> (fail_batch_transport fl clk 1 s1 maxRetries err tasks, CallFailed err)
                     | Inr results \<Rightarrow>
                         (apply_results fl clk 1 s1 (build_taskMap tasks) results, Processed))))"

section \<open>Auxiliary notions and sample data\<close>

text \<open>The key of the UNIQUE(class_name, symbol_name) constraint.\<close>

definition task_key :: "Task \<Rightarrow> string \<times> string" where
  "task_key t = (ClassName t, SymbolName t)"

text \<open>Sample rows in the style of the repository's test (\<^verbatim>\<open>Test\<close>/\<^verbatim>\<open>method1\<close>, ...).\<close>

definition empty_store :: TaskStore where
  "empty_store = \<lparr>table = [], sequence = 0\<rparr>"

definition sample_row :: "int \<Rightarrow> string \<Rightarrow> TaskStatus \<Rightarrow> 64 word \<Rightarrow> string option \<Rightarrow> string option \<Rightarrow> Task" where
  "sample_row i y st rt src er =
     \<lparr>ID = i, ClassName = ''Test'', SymbolName = y, AssemblyCode = ''...'',
      Status = st, Retries = rt, DecompiledSource = src, ErrorMessage = er,
      CreatedAt = 1, UpdatedAt = 1\<rparr>"

text \<open>Drivers that fail one statement, and one that fails every commit.\<close>

definition exec_fails :: "fault \<Rightarrow> bool" where
  "exec_fails = (\<lambda>x. x = FailExec 0)"

definition commit_fails :: "fault \<Rightarrow> bool" where
  "commit_fails = (\<lambda>x. x = FailCommit)"

text \<open>A store as a crash leaves it: two rows claimed and never finished.\<close>

definition crashed_store :: TaskStore where
  "crashed_store =
     \<lparr>table = [sample_row 1 ''method1'' StatusInFlight 0 None None,
               sample_row 2 ''method2'' StatusInFlight 0 None None,
               sample_row 3 ''method3'' StatusPending 0 None None,
               sample_row 4 ''method4'' StatusCompleted 0 (Some ''src'') None,
               sample_row 5 ''method5'' StatusFailed 1 None (Some ''boom'')],
      sequence = 5\<rparr>"

definition recovered_store :: TaskStore where
  "recovered_store =
     \<lparr>table = [sample_row 1 ''method1'' StatusPending 0 None None,
               sample_row 2 ''method2'' StatusPending 0 None None,
               sample_row 3 ''method3'' StatusPending 0 None None,
               sample_row 4 ''method4'' StatusCompleted 0 (Some ''src'') None,
               sample_row 5 ''method5'' StatusFailed 1 None (Some ''boom'')],
      sequence = 5\<rparr>"

text \<open>An input task that carries values in the fields \<^verbatim>\<open>AddTasks\<close> does not read.\<close>

definition loaded_task :: Task where
  "loaded_task = sample_row 77 ''method1'' StatusCompleted 9 (Some ''old'') (Some ''err'')"

definition seeded_store :: TaskStore where
  "seeded_store =
     \<lparr>table = [\<lparr>ID = 1, ClassName = ''Test'', SymbolName = ''method1'', AssemblyCode = ''...'',
                Status = StatusPending, Retries = 0, DecompiledSource = None,
                ErrorMessage = None, CreatedAt = 5, UpdatedAt = 5\<rparr>],
      sequence = 1\<rparr>"

text \<open>A batch that names the same method twice.\<close>

definition twin_batch :: "Task list" where
  "twin_batch = [sample_row 0 ''method1'' StatusPending 0 None None,
                 sample_row 0 ''method1'' StatusPending 0 None None]"

text \<open>The four tasks of the repository's test, and the store that seeding them gives.\<close>

definition test_batch :: "Task list" where
  "test_batch = [sample_row 0 ''method1'' StatusPending 0 None None,
                 sample_row 0 ''method2'' StatusPending 0 None None,
                 sample_row 0 ''method3'' StatusPending 0 None None,
                 sample_row 0 ''method4'' StatusPending 0 None None]"

definition test_store :: TaskStore where
  "test_store =
     \<lparr>table = [(sample_row 1 ''method1'' StatusPending 0 None None)\<lparr>CreatedAt := 5, UpdatedAt := 5\<rparr>,
               (sample_row 2 ''method2'' StatusPending 0 None None)\<lparr>CreatedAt := 5, UpdatedAt := 5\<rparr>,
               (sample_row 3 ''method3'' StatusPending 0 None None)\<lparr>CreatedAt := 5, UpdatedAt := 5\<rparr>,
               (sample_row 4 ''method4'' StatusPending 0 None None)\<lparr>CreatedAt := 5, UpdatedAt := 5\<rparr>],
      sequence = 4\<rparr>"

text \<open>The test's store after method2 was completed at time 9.\<close>

definition completed_store :: TaskStore where
  "completed_store =
     \<lparr>table = [(sample_row 1 ''method1'' StatusPending 0 None None)\<lparr>CreatedAt := 5, UpdatedAt := 5\<rparr>,
               (sample_row 2 ''method2'' StatusCompleted 0 (Some ''src'') None)\<lparr>CreatedAt := 5, UpdatedAt := 9\<rparr>,
               (sample_row 3 ''method3'' StatusPending 0 None None)\<lparr>CreatedAt := 5, UpdatedAt := 5\<rparr>,
               (sample_row 4 ''method4'' StatusPending 0 None None)\<lparr>CreatedAt := 5, UpdatedAt := 5\<rparr>],
      sequence = 4\<rparr>"

text \<open>The test's store after a claim of two at time 7, and the batch that claim returns.\<close>

definition claimed_store :: TaskStore where
  "claimed_store =
     \<lparr>table = [(sample_row 1 ''method1'' StatusInFlight 0 None None)\<lparr>CreatedAt := 5, UpdatedAt := 7\<rparr>,
               (sample_row 2 ''method2'' StatusInFlight 0 None None)\<lparr>CreatedAt := 5, UpdatedAt := 7\<rparr>,
               (sample_row 3 ''method3'' StatusPending 0 None None)\<lparr>CreatedAt := 5, UpdatedAt := 5\<rparr>,
               (sample_row 4 ''method4'' StatusPending 0 None None)\<lparr>CreatedAt := 5, UpdatedAt := 5\<rparr>],
      sequence = 4\<rparr>"

definition claimed_batch :: "Task list" where
  "claimed_batch =
     [(sample_row 1 ''method1'' StatusPending 0 None None)\<lparr>CreatedAt := 5, UpdatedAt := 5\<rparr>,
      (sample_row 2 ''method2'' StatusPending 0 None None)\<lparr>CreatedAt := 5, UpdatedAt := 5\<rparr>]"

text \<open>How \<^verbatim>\<open>json.MarshalIndent\<close> prints one \<^verbatim>\<open>Method\<close> at depth \<open>d\<close>.\<close>

definition Method_text :: "nat \<Rightarrow> Method \<Rightarrow> string" where
  "Method_text d m =
     ''{'' @ newline_indent (Suc d)
     @ json_quote ''symbol_name'' @ '': '' @ json_quote (Method_SymbolName m)
     @ '','' @ newline_indent (Suc d)
     @ json_quote ''assembly_code'' @ '': '' @ json_quote (Method_AssemblyCode m)
     @ newline_indent d @ ''}''"

text \<open>
  A frame condition for updates by id: \<open>s'\<close> has the rows of \<open>s\<close> under the same ids
  in the same order, and every row whose id is outside \<open>ids\<close> is unchanged.
\<close>

definition same_rows_outside :: "int set \<Rightarrow> TaskStore \<Rightarrow> TaskStore \<Rightarrow> bool" where
  "same_rows_outside ids s s' \<longleftrightarrow>
     map ID (table s') = map ID (table s)
     \<and> (\<forall>k < length (table s). ID (table s ! k) \<notin> ids \<longrightarrow> table s' ! k = table s ! k)"

text \<open>The ids of the pending rows: the only ids a claim can return.\<close>

definition pending_ids :: "TaskStore \<Rightarrow> int set" where
  "pending_ids s = ID ` {r \<in> set (table s). Status r = StatusPending}"

text \<open>
  Several passes of the worker loop, one after the other, each with its own driver
  behaviour, clock, model reply, batch size and retry cap.
\<close>

fun worker_passes :: "((nat \<Rightarrow> fault \<Rightarrow> bool) \<times> (nat \<Rightarrow> nat) \<times> (string \<Rightarrow> string + DecompiledResult list) \<times> int \<times> 64 word) list \<Rightarrow> TaskStore \<Rightarrow> TaskStore" where
  "worker_passes [] s = s"
| "worker_passes ((fl, clk, llm, batchSize, maxRetries) # ps) s =
     worker_passes ps (fst (worker_pass fl clk llm s batchSize maxRetries))"

text \<open>A healthy driver and a clock for the sample runs, and a model that cannot be reached.\<close>

definition healthy :: "nat \<Rightarrow> fault \<Rightarrow> bool" where
  "healthy = (\<lambda>_. no_faults)"

definition tick :: "nat \<Rightarrow> nat" where
  "tick = (\<lambda>k. 10 + k)"

definition down_llm :: "string \<Rightarrow> string + DecompiledResult list" where
  "down_llm = (\<lambda>_. Inl ''connection refused'')"

text \<open>
  A context that is cancelled while the model call runs: the call fails, and every store
  call made with the same context afterwards returns the context's error.
\<close>

definition cancelled :: "nat \<Rightarrow> fault \<Rightarrow> bool" where
  "cancelled = (\<lambda>j _. 1 \<le> j)"

definition cancelled_llm :: "string \<Rightarrow> string + DecompiledResult list" where
  "cancelled_llm = (\<lambda>_. Inl ''context canceled'')"

text \<open>A reply that reports the same symbol twice: first decompiled, then failed.\<close>

definition flip_reply :: "DecompiledResult list" where
  "flip_reply =
     [\<lparr>res_SymbolName = ''method1'', res_DecompiledSource = ''src'', res_Success = True,
       res_ErrorMessage = ''''\<rparr>,
      \<lparr>res_SymbolName = ''method1'', res_DecompiledSource = '''', res_Success = False,
       res_ErrorMessage = ''oops''\<rparr>]"

text \<open>Two pending rows, the second already at the retry cap of 3.\<close>

definition retry_store :: TaskStore where
  "retry_store =
     \<lparr>table = [sample_row 1 ''method1'' StatusPending 0 None None,
               sample_row 2 ''method2'' StatusPending 3 None None],
      sequence = 2\<rparr>"

text \<open>A result that reports failure for method2, and one for a symbol nobody claimed.\<close>

definition cannot_result :: DecompiledResult where
  "cannot_result =
     \<lparr>res_SymbolName = ''method2'', res_DecompiledSource = [], res_Success = False,
      res_ErrorMessage = ''cannot decompile''\<rparr>"

definition stray_result :: DecompiledResult where
  "stray_result =
     \<lparr>res_SymbolName = ''method9'', res_DecompiledSource = [], res_Success = False,
      res_ErrorMessage = ''cannot decompile''\<rparr>"

text \<open>
  The store as a pass leaves it when the model's reply is cut after its first \<open>i\<close>
  results: the state in which the worker of the full reply turns to result \<open>i\<close>.
\<close>

definition store_after :: "(nat \<Rightarrow> fault \<Rightarrow> bool) \<Rightarrow> (nat \<Rightarrow> nat) \<Rightarrow> TaskStore \<Rightarrow> int \<Rightarrow> 64 word \<Rightarrow> DecompiledResult list \<Rightarrow> nat \<Rightarrow> TaskStore" where
  "store_after fl clk s batchSize maxRetries results i =
     fst (worker_pass fl clk (\<lambda>_. Inr (take i results)) s batchSize maxRetries)"

text \<open>
  Two pending methods of different classes with the same symbol, and a model that reports
  one failure for that symbol.
\<close>

definition shared_symbol_store :: TaskStore where
  "shared_symbol_store =
     \<lparr>table = [(sample_row 1 ''m'' StatusPending 0 None None)\<lparr>ClassName := ''A''\<rparr>,
               (sample_row 2 ''m'' StatusPending 0 None None)\<lparr>ClassName := ''B''\<rparr>],
      sequence = 2\<rparr>"

definition shared_symbol_llm :: "string \<Rightarrow> string + DecompiledResult list" where
  "shared_symbol_llm =
     (\<lambda>_. Inr [\<lparr>res_SymbolName = ''m'', res_DecompiledSource = [], res_Success = False,
                 res_ErrorMessage = ''cannot decompile''\<rparr>])"

text \<open>A model that reports a failure for method2 and a result for a symbol nobody claimed.\<close>

definition failing_llm :: "string \<Rightarrow> string + DecompiledResult list" where
  "failing_llm = (\<lambda>_. Inr [cannot_result, stray_result])"

section \<open>Properties of the store\<close>

subsection \<open>Crash recovery\<close>

lemma reset_counts:
  "length (filter (\<lambda>r. Status r = StatusPending)
        (map (\<lambda>r. if Status r = StatusInFlight then r\<lparr>Status := StatusPending\<rparr> else r) rows))
   = length (filter (\<lambda>r. Status r = StatusPending) rows)
     + length (filter (\<lambda>r. Status r = StatusInFlight) rows)"
  by (induction rows) auto

lemma reset_no_in_flight:
  "filter (\<lambda>r. Status r = StatusInFlight)
        (map (\<lambda>r. if Status r = StatusInFlight then r\<lparr>Status := StatusPending\<rparr> else r) rows) = []"
  by (induction rows) auto

lemma NewTaskStore_keeps_table:
  "NewTaskStore f (Some s) = (file, err) \<Longrightarrow> file = Some s"
  by (auto simp: NewTaskStore_def initSchema_def split: if_splits)

text \<open>
  Claim C7. \<^verbatim>\<open>ResetInFlightTasks\<close> either fails and changes nothing, or it turns every
  row that is in flight into a pending row and leaves every other row, and every field
  but the status, as it was: the table keeps its length and order, no row is in flight
  afterwards, and the number of pending rows grows by the number of rows that were in
  flight. Opening the store again (\<^verbatim>\<open>NewTaskStore\<close>) on an existing table does not touch
  it, so after a crash with K rows in flight, init and reset give K more pending rows.
\<close>

theorem ResetInFlightTasks_frame:
  assumes init: "NewTaskStore f0 (Some s) = (file, err0)"
    and reset: "ResetInFlightTasks f s = (s', err)"
  shows "file = Some s
       \<and> (err \<noteq> None \<longrightarrow> s' = s)
       \<and> (err = None \<longrightarrow>
            length (table s') = length (table s) \<and> sequence s' = sequence s
          \<and> (\<forall>i < length (table s).
                table s' ! i = (if Status (table s ! i) = StatusInFlight
                                then (table s ! i)\<lparr>Status := StatusPending\<rparr>
                                else table s ! i))
          \<and> count_status StatusInFlight s' = 0
          \<and> count_status StatusPending s' =
              count_status StatusPending s + count_status StatusInFlight s)"
proof -
  have a: "file = Some s" using init by (rule NewTaskStore_keeps_table)
  have b: "err \<noteq> None \<longrightarrow> s' = s"
    using reset by (auto simp: ResetInFlightTasks_def split: if_splits)
  have c: "err = None \<longrightarrow>
            length (table s') = length (table s) \<and> sequence s' = sequence s
          \<and> (\<forall>i < length (table s).
                table s' ! i = (if Status (table s ! i) = StatusInFlight
                                then (table s ! i)\<lparr>Status := StatusPending\<rparr>
                                else table s ! i))"
    using reset by (auto simp: ResetInFlightTasks_def split: if_splits)
  have d: "err = None \<longrightarrow> count_status StatusInFlight s' = 0
          \<and> count_status StatusPending s' =
              count_status StatusPending s + count_status StatusInFlight s"
  proof
    assume "err = None"
    with reset have tbl: "table s' = map (\<lambda>r. if Status r = StatusInFlight
                                  then r\<lparr>Status := StatusPending\<rparr> else r) (table s)"
      by (auto simp: ResetInFlightTasks_def split: if_splits)
    show "count_status StatusInFlight s' = 0
          \<and> count_status StatusPending s' =
              count_status StatusPending s + count_status StatusInFlight s"
      unfolding count_status_def tbl
      by (simp only: reset_counts reset_no_in_flight list.size simp_thms)
  qed
  from a b c d show ?thesis by blast
qed

text \<open>The claim at a store with two rows in flight, one pending, one completed, one failed.\<close>

theorem ResetInFlightTasks_frame_witness:
  "NewTaskStore no_faults (Some crashed_store) = (Some crashed_store, None)
   \<and> ResetInFlightTasks no_faults crashed_store = (recovered_store, None)
   \<and> count_status StatusInFlight crashed_store = 2
   \<and> count_status StatusPending crashed_store = 1
   \<and> count_status StatusPending recovered_store = 3
   \<and> count_status StatusInFlight recovered_store = 0
   \<and> table recovered_store ! 3 = table crashed_store ! 3
   \<and> ResetInFlightTasks exec_fails crashed_store = (crashed_store, Some ErrResetInFlight)"
proof -
  have init: "NewTaskStore no_faults (Some crashed_store) = (Some crashed_store, None)"
    by (simp add: NewTaskStore_def initSchema_def no_faults_def)
  have reset: "ResetInFlightTasks no_faults crashed_store = (recovered_store, None)"
    by (simp add: ResetInFlightTasks_def no_faults_def crashed_store_def recovered_store_def
        sample_row_def)
  have k: "count_status StatusInFlight crashed_store = 2"
    and p: "count_status StatusPending crashed_store = 1"
    by (simp_all add: count_status_def crashed_store_def sample_row_def)
  have len: "3 < length (table crashed_store)"
    and st: "Status (table crashed_store ! 3) \<noteq> StatusInFlight"
    by (simp_all add: crashed_store_def sample_row_def)
  from ResetInFlightTasks_frame [OF init reset] len st k p
  have "count_status StatusPending recovered_store = 3"
    and "count_status StatusInFlight recovered_store = 0"
    and "table recovered_store ! 3 = table crashed_store ! 3"
    by simp_all
  moreover have "snd (ResetInFlightTasks exec_fails crashed_store) = Some ErrResetInFlight"
    by (simp add: ResetInFlightTasks_def exec_fails_def)
  with ResetInFlightTasks_frame [OF init, where f = exec_fails
      and s' = "fst (ResetInFlightTasks exec_fails crashed_store)"
      and err = "snd (ResetInFlightTasks exec_fails crashed_store)"]
  have "ResetInFlightTasks exec_fails crashed_store = (crashed_store, Some ErrResetInFlight)"
    by (simp add: prod_eq_iff)
  ultimately show ?thesis using init reset k p by simp
qed

subsection \<open>Seeding\<close>

lemma insert_or_ignore_table:
  "\<exists>new. table (insert_or_ignore now s c y a st) = table s @ new
     \<and> (\<forall>r \<in> set new. Status r = st \<and> Retries r = 0 \<and> DecompiledSource r = None
            \<and> ErrorMessage r = None \<and> ClassName r = c \<and> SymbolName r = y \<and> AssemblyCode r = a
            \<and> CreatedAt r = now \<and> UpdatedAt r = now \<and> ID r = next_id s)"
  by (auto simp: insert_or_ignore_def)

lemma exec_inserts_table:
  "exec_inserts f now i s tasks = Inr s' \<Longrightarrow>
   \<exists>new. table s' = table s @ new
     \<and> (\<forall>r \<in> set new. Status r = StatusPending \<and> Retries r = 0 \<and> DecompiledSource r = None
            \<and> ErrorMessage r = None \<and> CreatedAt r = now \<and> UpdatedAt r = now
            \<and> (\<exists>t \<in> set tasks. ClassName r = ClassName t \<and> SymbolName r = SymbolName t
                   \<and> AssemblyCode r = AssemblyCode t))"
proof (induction tasks arbitrary: i s)
  case Nil
  then show ?case by simp
next
  case (Cons t ts)
  let ?s1 = "insert_or_ignore now s (ClassName t) (SymbolName t) (AssemblyCode t) StatusPending"
  from Cons.prems have nf: "\<not> f (FailExec i)" and rest: "exec_inserts f now (Suc i) ?s1 ts = Inr s'"
    by (auto split: if_splits)
  from Cons.IH[OF rest] obtain new2 where
    n2: "table s' = table ?s1 @ new2"
    and p2: "\<forall>r \<in> set new2. Status r = StatusPending \<and> Retries r = 0 \<and> DecompiledSource r = None
            \<and> ErrorMessage r = None \<and> CreatedAt r = now \<and> UpdatedAt r = now
            \<and> (\<exists>t \<in> set ts. ClassName r = ClassName t \<and> SymbolName r = SymbolName t
                   \<and> AssemblyCode r = AssemblyCode t)"
    by blast
  from insert_or_ignore_table[of now s "ClassName t" "SymbolName t" "AssemblyCode t" StatusPending]
  obtain new1 where
    n1: "table ?s1 = table s @ new1"
    and p1: "\<forall>r \<in> set new1. Status r = StatusPending \<and> Retries r = 0 \<and> DecompiledSource r = None
            \<and> ErrorMessage r = None \<and> ClassName r = ClassName t \<and> SymbolName r = SymbolName t
            \<and> AssemblyCode r = AssemblyCode t \<and> CreatedAt r = now \<and> UpdatedAt r = now"
    by blast
  have "table s' = table s @ (new1 @ new2)" using n1 n2 by simp
  moreover have "\<forall>r \<in> set (new1 @ new2). Status r = StatusPending \<and> Retries r = 0 \<and> DecompiledSource r = None
            \<and> ErrorMessage r = None \<and> CreatedAt r = now \<and> UpdatedAt r = now
            \<and> (\<exists>t' \<in> set (t # ts). ClassName r = ClassName t' \<and> SymbolName r = SymbolName t'
                   \<and> AssemblyCode r = AssemblyCode t')"
    using p1 p2 by auto
  ultimately show ?case by blast
qed

lemma exec_inserts_cong:
  "map ClassName ts' = map ClassName ts \<Longrightarrow> map SymbolName ts' = map SymbolName ts \<Longrightarrow>
   map AssemblyCode ts' = map AssemblyCode ts \<Longrightarrow>
   exec_inserts f now i s ts' = exec_inserts f now i s ts"
proof (induction ts arbitrary: ts' i s)
  case Nil
  then show ?case by simp
next
  case (Cons t ts)
  then obtain u us where ts': "ts' = u # us" by (cases ts') auto
  with Cons.prems have "ClassName u = ClassName t" "SymbolName u = SymbolName t" "AssemblyCode u = AssemblyCode t"
    "map ClassName us = map ClassName ts" "map SymbolName us = map SymbolName ts"
    "map AssemblyCode us = map AssemblyCode ts" by auto
  then show ?case using Cons.IH[of us] ts' by simp
qed

text \<open>
  Claim C10. When \<^verbatim>\<open>AddTasks\<close> succeeds, the table is the old table followed by the
  inserted rows, and every inserted row is pending, has 0 retries and no source and no
  error, with class, symbol and assembly taken from an input task. The other fields of
  the input tasks (id, status, retries, source, error, timestamps) have no influence:
  overwriting them in any way gives the same result.
\<close>

theorem AddTasks_defaults:
  "(AddTasks f now s tasks = (s', None) \<longrightarrow>
      (\<exists>new. table s' = table s @ new
         \<and> (\<forall>r \<in> set new. Status r = StatusPending \<and> Retries r = 0
               \<and> DecompiledSource r = None \<and> ErrorMessage r = None
               \<and> (\<exists>t \<in> set tasks. ClassName r = ClassName t \<and> SymbolName r = SymbolName t
                      \<and> AssemblyCode r = AssemblyCode t))))
   \<and> AddTasks f now s
        (map (\<lambda>t. t\<lparr>ID := i t, Status := st t, Retries := rt t, DecompiledSource := ds t,
                    ErrorMessage := em t, CreatedAt := ca t, UpdatedAt := ua t\<rparr>) tasks)
      = AddTasks f now s tasks"
proof -
  have one: "AddTasks f now s tasks = (s', None) \<longrightarrow>
      (\<exists>new. table s' = table s @ new
         \<and> (\<forall>r \<in> set new. Status r = StatusPending \<and> Retries r = 0
               \<and> DecompiledSource r = None \<and> ErrorMessage r = None
               \<and> (\<exists>t \<in> set tasks. ClassName r = ClassName t \<and> SymbolName r = SymbolName t
                      \<and> AssemblyCode r = AssemblyCode t)))"
  proof
    assume "AddTasks f now s tasks = (s', None)"
    then have "exec_inserts f now 0 s tasks = Inr s'"
      by (auto simp: AddTasks_def split: if_splits sum.splits)
    from exec_inserts_table[OF this] show "\<exists>new. table s' = table s @ new
         \<and> (\<forall>r \<in> set new. Status r = StatusPending \<and> Retries r = 0
               \<and> DecompiledSource r = None \<and> ErrorMessage r = None
               \<and> (\<exists>t \<in> set tasks. ClassName r = ClassName t \<and> SymbolName r = SymbolName t
                      \<and> AssemblyCode r = AssemblyCode t))" by blast
  qed
  have two: "exec_inserts f now 0 s (map (\<lambda>t. t\<lparr>ID := i t, Status := st t, Retries := rt t, DecompiledSource := ds t,
                    ErrorMessage := em t, CreatedAt := ca t, UpdatedAt := ua t\<rparr>) tasks)
      = exec_inserts f now 0 s tasks"
    by (rule exec_inserts_cong) (simp_all add: comp_def)
  show ?thesis using one by (simp add: AddTasks_def two)
qed

text \<open>The claim at a task that arrives completed, with 9 retries, a source and an error.\<close>

theorem AddTasks_defaults_witness:
  "AddTasks no_faults 5 empty_store [loaded_task] = (seeded_store, None)
   \<and> map Status (table seeded_store) = [StatusPending]
   \<and> map Retries (table seeded_store) = [0]
   \<and> map DecompiledSource (table seeded_store) = [None]
   \<and> map ErrorMessage (table seeded_store) = [None]
   \<and> AddTasks no_faults 5 empty_store
        [loaded_task\<lparr>ID := 0, Status := StatusPending, Retries := 0, DecompiledSource := None,
                     ErrorMessage := None, CreatedAt := 0, UpdatedAt := 0\<rparr>]
      = (seeded_store, None)"
proof -
  have run: "AddTasks no_faults 5 empty_store [loaded_task] = (seeded_store, None)"
    by (simp add: AddTasks_def no_faults_def empty_store_def loaded_task_def sample_row_def
        insert_or_ignore_def next_id_def seeded_store_def)
  from AddTasks_defaults [where f = no_faults and now = 5 and s = empty_store
      and tasks = "[loaded_task]" and s' = seeded_store and i = "\<lambda>_. 0"
      and st = "\<lambda>_. StatusPending" and rt = "\<lambda>_. 0" and ds = "\<lambda>_. None"
      and em = "\<lambda>_. None" and ca = "\<lambda>_. 0" and ua = "\<lambda>_. 0"] run
  have new: "\<exists>new. table seeded_store = table empty_store @ new
         \<and> (\<forall>r \<in> set new. Status r = StatusPending \<and> Retries r = 0
               \<and> DecompiledSource r = None \<and> ErrorMessage r = None
               \<and> (\<exists>t \<in> set [loaded_task]. ClassName r = ClassName t \<and> SymbolName r = SymbolName t
                      \<and> AssemblyCode r = AssemblyCode t))"
    and same: "AddTasks no_faults 5 empty_store
        [loaded_task\<lparr>ID := 0, Status := StatusPending, Retries := 0, DecompiledSource := None,
                     ErrorMessage := None, CreatedAt := 0, UpdatedAt := 0\<rparr>]
      = (seeded_store, None)"
    by simp_all
  from new have all: "\<forall>r \<in> set (table seeded_store). Status r = StatusPending \<and> Retries r = 0
               \<and> DecompiledSource r = None \<and> ErrorMessage r = None"
    by (auto simp: empty_store_def)
  have shape: "\<exists>r. table seeded_store = [r]" by (simp add: seeded_store_def)
  from all shape have "map Status (table seeded_store) = [StatusPending]"
    and "map Retries (table seeded_store) = [0]"
    and "map DecompiledSource (table seeded_store) = [None]"
    and "map ErrorMessage (table seeded_store) = [None]"
    by auto
  with run same show ?thesis by simp
qed

lemma insert_or_ignore_keys:
  "set (map task_key (table (insert_or_ignore now s c y a st)))
     = insert (c, y) (set (map task_key (table s)))"
  by (auto simp: insert_or_ignore_def task_key_def)

lemma insert_or_ignore_distinct:
  "distinct (map task_key (table s)) \<Longrightarrow>
   distinct (map task_key (table (insert_or_ignore now s c y a st)))"
  by (auto simp: insert_or_ignore_def task_key_def)

lemma insert_or_ignore_present:
  "(c, y) \<in> set (map task_key (table s)) \<Longrightarrow>
   table (insert_or_ignore now s c y a st) = table s"
  by (auto simp: insert_or_ignore_def task_key_def)

lemma exec_inserts_keys:
  "exec_inserts f now i s tasks = Inr s' \<Longrightarrow>
   set (map task_key (table s')) = set (map task_key (table s)) \<union> task_key ` set tasks"
proof (induction tasks arbitrary: i s)
  case Nil
  then show ?case by simp
next
  case (Cons t ts)
  let ?s1 = "insert_or_ignore now s (ClassName t) (SymbolName t) (AssemblyCode t) StatusPending"
  from Cons.prems have rest: "exec_inserts f now (Suc i) ?s1 ts = Inr s'"
    by (auto split: if_splits)
  have "set (map task_key (table ?s1)) = insert (task_key t) (set (map task_key (table s)))"
    by (simp only: insert_or_ignore_keys task_key_def)
  with Cons.IH[OF rest] show ?case by auto
qed

lemma exec_inserts_distinct:
  "exec_inserts f now i s tasks = Inr s' \<Longrightarrow> distinct (map task_key (table s)) \<Longrightarrow>
   distinct (map task_key (table s'))"
proof (induction tasks arbitrary: i s)
  case Nil
  then show ?case by simp
next
  case (Cons t ts)
  let ?s1 = "insert_or_ignore now s (ClassName t) (SymbolName t) (AssemblyCode t) StatusPending"
  from Cons.prems have rest: "exec_inserts f now (Suc i) ?s1 ts = Inr s'"
    by (auto split: if_splits)
  from Cons.prems(2) have "distinct (map task_key (table ?s1))"
    by (rule insert_or_ignore_distinct)
  with Cons.IH[OF rest] show ?case .
qed

lemma exec_inserts_present:
  "exec_inserts f now i s tasks = Inr s' \<Longrightarrow>
   task_key ` set tasks \<subseteq> set (map task_key (table s)) \<Longrightarrow> table s' = table s"
proof (induction tasks arbitrary: i s)
  case Nil
  then show ?case by simp
next
  case (Cons t ts)
  let ?s1 = "insert_or_ignore now s (ClassName t) (SymbolName t) (AssemblyCode t) StatusPending"
  from Cons.prems(2) have "(ClassName t, SymbolName t) \<in> set (map task_key (table s))"
    by (auto simp: task_key_def)
  then have same: "table ?s1 = table s"
    by (rule insert_or_ignore_present)
  from Cons.prems(1) have "exec_inserts f now (Suc i) ?s1 ts = Inr s'"
    by (auto split: if_splits)
  moreover from Cons.prems(2) same have "task_key ` set ts \<subseteq> set (map task_key (table ?s1))"
    by auto
  ultimately have "table s' = table ?s1" by (rule Cons.IH)
  with same show ?case by simp
qed

lemma AddTasks_error_unchanged:
  "AddTasks f now s tasks = (s', Some e) \<Longrightarrow> s' = s"
  by (auto simp: AddTasks_def split: if_splits sum.splits)

lemma AddTasks_success_exec:
  "AddTasks f now s tasks = (s', None) \<Longrightarrow> exec_inserts f now 0 s tasks = Inr s'"
  by (auto simp: AddTasks_def split: if_splits sum.splits)

text \<open>
  Claim C6, as the code has it. A failing \<^verbatim>\<open>AddTasks\<close> changes nothing. A successful one
  keeps the old rows unchanged in front of the new ones, leaves the table with exactly the
  keys of the old rows and of the batch, keeps the keys pairwise different, and a second
  \<^verbatim>\<open>AddTasks\<close> of the same batch leaves the table of rows as it is (its ignored inserts
  only use up ids). Starting from an empty table,
  the number of rows after the two calls is the number of different (class, symbol) keys
  in the batch: the length of the batch when its keys are pairwise different.
\<close>

theorem AddTasks_twice:
  assumes first: "AddTasks f now s tasks = (s1, e1)"
    and second: "AddTasks g now' s1 tasks = (s2, e2)"
  shows "(e1 \<noteq> None \<longrightarrow> s1 = s)
       \<and> (e1 = None \<longrightarrow>
            (\<exists>new. table s1 = table s @ new)
          \<and> set (map task_key (table s1)) = set (map task_key (table s)) \<union> task_key ` set tasks
          \<and> (distinct (map task_key (table s)) \<longrightarrow> distinct (map task_key (table s1)))
          \<and> table s2 = table s1
          \<and> (table s = [] \<longrightarrow> length (table s2) = card (task_key ` set tasks))
          \<and> (table s = [] \<and> distinct (map task_key tasks) \<longrightarrow> length (table s2) = length tasks))"
proof -
  have fail: "e1 \<noteq> None \<longrightarrow> s1 = s"
    using first AddTasks_error_unchanged by fastforce
  have ok: "e1 = None \<longrightarrow>
            (\<exists>new. table s1 = table s @ new)
          \<and> set (map task_key (table s1)) = set (map task_key (table s)) \<union> task_key ` set tasks
          \<and> (distinct (map task_key (table s)) \<longrightarrow> distinct (map task_key (table s1)))
          \<and> table s2 = table s1
          \<and> (table s = [] \<longrightarrow> length (table s2) = card (task_key ` set tasks))
          \<and> (table s = [] \<and> distinct (map task_key tasks) \<longrightarrow> length (table s2) = length tasks)"
  proof
    assume "e1 = None"
    with first have ex: "exec_inserts f now 0 s tasks = Inr s1"
      by (simp add: AddTasks_success_exec)
    from exec_inserts_table[OF ex] have app: "\<exists>new. table s1 = table s @ new" by blast
    have keys: "set (map task_key (table s1)) = set (map task_key (table s)) \<union> task_key ` set tasks"
      using ex by (rule exec_inserts_keys)
    have dist: "distinct (map task_key (table s)) \<longrightarrow> distinct (map task_key (table s1))"
      using ex exec_inserts_distinct by blast
    have again: "table s2 = table s1"
    proof (cases e2)
      case None
      with second have "exec_inserts g now' 0 s1 tasks = Inr s2"
        by (simp add: AddTasks_success_exec)
      moreover have "task_key ` set tasks \<subseteq> set (map task_key (table s1))"
        using keys by auto
      ultimately show ?thesis by (rule exec_inserts_present)
    next
      case (Some e)
      with second have "s2 = s1" by (simp add: AddTasks_error_unchanged)
      then show ?thesis by simp
    qed
    have count: "table s = [] \<longrightarrow> length (table s2) = card (task_key ` set tasks)"
    proof
      assume emp: "table s = []"
      with dist have d: "distinct (map task_key (table s1))" by simp
      have "length (table s1) = length (map task_key (table s1))" by simp
      also have "\<dots> = card (set (map task_key (table s1)))"
        using d by (simp only: distinct_card)
      also have "\<dots> = card (task_key ` set tasks)" using keys emp by simp
      finally show "length (table s2) = card (task_key ` set tasks)" using again by simp
    qed
    have full: "table s = [] \<and> distinct (map task_key tasks) \<longrightarrow> length (table s2) = length tasks"
    proof
      assume a: "table s = [] \<and> distinct (map task_key tasks)"
      then have "card (task_key ` set tasks) = length tasks"
        using distinct_card[of "map task_key tasks"] by simp
      with count a show "length (table s2) = length tasks" by simp
    qed
    from app keys dist again count full
    show "(\<exists>new. table s1 = table s @ new)
          \<and> set (map task_key (table s1)) = set (map task_key (table s)) \<union> task_key ` set tasks
          \<and> (distinct (map task_key (table s)) \<longrightarrow> distinct (map task_key (table s1)))
          \<and> table s2 = table s1
          \<and> (table s = [] \<longrightarrow> length (table s2) = card (task_key ` set tasks))
          \<and> (table s = [] \<and> distinct (map task_key tasks) \<longrightarrow> length (table s2) = length tasks)"
      by blast
  qed
  from fail ok show ?thesis by blast
qed

text \<open>
  The claim as the specification words it (any batch leaves as many rows as it is long)
  fails for a batch that names a method twice: the second insert is ignored.
\<close>

theorem AddTasks_twice_counterexample:
  "snd (AddTasks no_faults 5 empty_store twin_batch) = None
   \<and> snd (AddTasks no_faults 6 (fst (AddTasks no_faults 5 empty_store twin_batch)) twin_batch) = None
   \<and> length (table (fst (AddTasks no_faults 6
                 (fst (AddTasks no_faults 5 empty_store twin_batch)) twin_batch))) = 1
   \<and> length twin_batch = 2"
  by (simp add: AddTasks_def no_faults_def empty_store_def twin_batch_def sample_row_def
      insert_or_ignore_def next_id_def)


text \<open>The claim at the four tasks of the repository's test, and with a failing commit.\<close>

theorem AddTasks_twice_witness:
  "AddTasks no_faults 5 empty_store test_batch = (test_store, None)
   \<and> AddTasks no_faults 6 test_store test_batch = (test_store\<lparr>sequence := 8\<rparr>, None)
   \<and> table empty_store = []
   \<and> distinct (map task_key test_batch)
   \<and> length (table test_store) = 4
   \<and> length test_batch = 4
   \<and> AddTasks commit_fails 5 empty_store test_batch = (empty_store, Some ErrCommit)"
proof -
  have first: "AddTasks no_faults 5 empty_store test_batch = (test_store, None)"
    by (simp add: AddTasks_def no_faults_def empty_store_def test_batch_def sample_row_def
        insert_or_ignore_def next_id_def test_store_def)
  have second: "AddTasks no_faults 6 test_store test_batch = (test_store\<lparr>sequence := 8\<rparr>, None)"
    by (simp add: AddTasks_def no_faults_def test_batch_def sample_row_def
        insert_or_ignore_def next_id_def test_store_def)
  have emp: "table empty_store = []" by (simp add: empty_store_def)
  have dist: "distinct (map task_key test_batch)"
    by (simp add: test_batch_def sample_row_def task_key_def)
  have len: "length test_batch = 4" by (simp add: test_batch_def)
  from AddTasks_twice [OF first second] emp dist len
  have "length (table (test_store\<lparr>sequence := 8\<rparr>)) = 4" by simp
  then have "length (table test_store) = 4" by simp
  moreover have "snd (AddTasks commit_fails 5 empty_store test_batch) = Some ErrCommit"
    by (simp add: AddTasks_def commit_fails_def empty_store_def test_batch_def sample_row_def
        insert_or_ignore_def next_id_def)
  with AddTasks_twice [of commit_fails 5 empty_store test_batch
      "fst (AddTasks commit_fails 5 empty_store test_batch)"
      "snd (AddTasks commit_fails 5 empty_store test_batch)"
      no_faults 6 "fst (AddTasks no_faults 6 (fst (AddTasks commit_fails 5 empty_store test_batch)) test_batch)"
      "snd (AddTasks no_faults 6 (fst (AddTasks commit_fails 5 empty_store test_batch)) test_batch)"]
  have "AddTasks commit_fails 5 empty_store test_batch = (empty_store, Some ErrCommit)"
    by (simp add: prod_eq_iff)
  ultimately show ?thesis using first second emp dist len by simp
qed

subsection \<open>Terminal updates\<close>

lemma map_unmatched: "\<forall>r \<in> set rows. \<not> P r \<Longrightarrow> map (\<lambda>r. if P r then g r else r) rows = rows"
  by (induction rows) auto

text \<open>
  Claim C8, as the code has it. \<^verbatim>\<open>UpdateTaskSuccess\<close> returns an error exactly when the
  driver fails the statement, and then changes nothing. Otherwise every row with the given
  id is completed, with the given source and the time of the call, and every other row is
  as before; when no row has the id, the call changes nothing and still returns no error.
\<close>

theorem UpdateTaskSuccess_effect:
  assumes run: "UpdateTaskSuccess f now s i src = (s', err)"
  shows "(err \<noteq> None \<longleftrightarrow> f (FailExec 0))
       \<and> (err \<noteq> None \<longrightarrow> err = Some ErrUpdateSuccess \<and> s' = s)
       \<and> (err = None \<longrightarrow>
            length (table s') = length (table s) \<and> sequence s' = sequence s
          \<and> (\<forall>k < length (table s).
                table s' ! k =
                  (if ID (table s ! k) = i
                   then (table s ! k)\<lparr>Status := StatusCompleted, DecompiledSource := Some src,
                                       UpdatedAt := now\<rparr>
                   else table s ! k)))
       \<and> ((\<forall>r \<in> set (table s). ID r \<noteq> i) \<longrightarrow> s' = s)"
proof -
  have a: "err \<noteq> None \<longleftrightarrow> f (FailExec 0)"
    using run by (auto simp: UpdateTaskSuccess_def split: if_splits)
  have b: "err \<noteq> None \<longrightarrow> err = Some ErrUpdateSuccess \<and> s' = s"
    using run by (auto simp: UpdateTaskSuccess_def split: if_splits)
  have c: "err = None \<longrightarrow>
            length (table s') = length (table s) \<and> sequence s' = sequence s
          \<and> (\<forall>k < length (table s).
                table s' ! k =
                  (if ID (table s ! k) = i
                   then (table s ! k)\<lparr>Status := StatusCompleted, DecompiledSource := Some src,
                                       UpdatedAt := now\<rparr>
                   else table s ! k))"
    using run by (auto simp: UpdateTaskSuccess_def split: if_splits)
  have d: "(\<forall>r \<in> set (table s). ID r \<noteq> i) \<longrightarrow> s' = s"
  proof
    assume none: "\<forall>r \<in> set (table s). ID r \<noteq> i"
    then have "map (\<lambda>r. if ID r = i
                         then r\<lparr>Status := StatusCompleted, DecompiledSource := Some src,
                                UpdatedAt := now\<rparr>
                         else r) (table s) = table s"
      by (intro map_unmatched) simp
    with run show "s' = s"
      by (auto simp: UpdateTaskSuccess_def split: if_splits)
  qed
  from a b c d show ?thesis by blast
qed

text \<open>
  The claim as the specification words it fails: for an id that no row has, the call
  returns no error.
\<close>

theorem UpdateTaskSuccess_unknown_counterexample:
  "find_row test_store 42 = None
   \<and> UpdateTaskSuccess no_faults 9 test_store 42 ''src'' = (test_store, None)"
  by (simp add: UpdateTaskSuccess_def no_faults_def test_store_def sample_row_def find_row_def)

text \<open>
  The claim at the test's store: for the id 2 of its second row, for the id 42 that no
  row has, and with a driver that fails the statement.
\<close>

theorem UpdateTaskSuccess_effect_witness:
  "UpdateTaskSuccess no_faults 9 test_store 2 ''src'' = (completed_store, None)
   \<and> \<not> no_faults (FailExec 0)
   \<and> table completed_store ! 1
       = (table test_store ! 1)\<lparr>Status := StatusCompleted, DecompiledSource := Some ''src'',
                                 UpdatedAt := 9\<rparr>
   \<and> table completed_store ! 0 = table test_store ! 0
   \<and> UpdateTaskSuccess no_faults 9 test_store 42 ''src'' = (test_store, None)
   \<and> UpdateTaskSuccess exec_fails 9 test_store 2 ''src'' = (test_store, Some ErrUpdateSuccess)"
proof -
  have run: "UpdateTaskSuccess no_faults 9 test_store 2 ''src'' = (completed_store, None)"
    by (simp add: UpdateTaskSuccess_def no_faults_def test_store_def completed_store_def
        sample_row_def)
  have len: "0 < length (table test_store)" "1 < length (table test_store)"
    and ids: "ID (table test_store ! 1) = 2" "ID (table test_store ! 0) \<noteq> 2"
    by (simp_all add: test_store_def sample_row_def)
  from UpdateTaskSuccess_effect [OF run] len ids
  have "\<not> no_faults (FailExec 0)"
    and "table completed_store ! 1
       = (table test_store ! 1)\<lparr>Status := StatusCompleted, DecompiledSource := Some ''src'',
                                 UpdatedAt := 9\<rparr>"
    and "table completed_store ! 0 = table test_store ! 0"
    by simp_all
  moreover have absent: "\<forall>r \<in> set (table test_store). ID r \<noteq> 42"
    by (simp add: test_store_def sample_row_def)
  have "snd (UpdateTaskSuccess no_faults 9 test_store 42 ''src'') = None"
    by (simp add: UpdateTaskSuccess_def no_faults_def)
  with UpdateTaskSuccess_effect [of no_faults 9 test_store 42 "''src''"
      "fst (UpdateTaskSuccess no_faults 9 test_store 42 ''src'')"
      "snd (UpdateTaskSuccess no_faults 9 test_store 42 ''src'')"] absent
  have "UpdateTaskSuccess no_faults 9 test_store 42 ''src'' = (test_store, None)"
    by (simp add: prod_eq_iff)
  moreover have "exec_fails (FailExec 0)" by (simp add: exec_fails_def)
  with UpdateTaskSuccess_effect [of exec_fails 9 test_store 2 "''src''"
      "fst (UpdateTaskSuccess exec_fails 9 test_store 2 ''src'')"
      "snd (UpdateTaskSuccess exec_fails 9 test_store 2 ''src'')"]
  have "UpdateTaskSuccess exec_fails 9 test_store 2 ''src'' = (test_store, Some ErrUpdateSuccess)"
    by (simp add: prod_eq_iff)
  ultimately show ?thesis using run by simp
qed

subsection \<open>Claiming a batch\<close>

lemma scan_rows_ids:
  "scan_rows f i rows = Inr tasks \<Longrightarrow> map ID tasks = map ID rows"
proof (induction rows arbitrary: i tasks)
  case Nil
  then show ?case by simp
next
  case (Cons r rs)
  then show ?case by (auto split: if_splits sum.splits)
qed

lemma scan_rows_fields:
  "scan_rows f i rows = Inr tasks \<Longrightarrow>
   tasks = map (\<lambda>r. r\<lparr>DecompiledSource := None, ErrorMessage := None\<rparr>) rows"
proof (induction rows arbitrary: i tasks)
  case Nil
  then show ?case by simp
next
  case (Cons r rs)
  then show ?case by (auto split: if_splits sum.splits)
qed

lemma select_pending_subset:
  "set (select_pending s n) \<subseteq> {r \<in> set (table s). Status r = StatusPending}"
  by (auto simp: select_pending_def Let_def dest: in_set_takeD)

lemma select_pending_none:
  "count_status StatusPending s = 0 \<Longrightarrow> select_pending s n = []"
  by (simp add: select_pending_def count_status_def Let_def)

lemma FetchPendingBatch_error:
  "FetchPendingBatch f now s n = (s', Inl e) \<Longrightarrow> s' = s"
  by (auto simp: FetchPendingBatch_def Let_def split: if_splits sum.splits)

lemma FetchPendingBatch_success:
  "FetchPendingBatch f now s n = (s', Inr tasks) \<Longrightarrow>
   scan_rows f 0 (select_pending s n) = Inr tasks
   \<and> (if tasks = [] then s' = s else s' = mark_in_flight now (map ID tasks) s)"
  by (auto simp: FetchPendingBatch_def Let_def split: if_splits sum.splits)

lemma mark_in_flight_status:
  "r \<in> set (table (mark_in_flight now ids s)) \<Longrightarrow> ID r \<in> set ids \<Longrightarrow> Status r = StatusInFlight"
  by (auto simp: mark_in_flight_def split: if_splits)

lemma mark_in_flight_has_row:
  "r \<in> set (table s) \<Longrightarrow> ID r \<in> set ids \<Longrightarrow>
   \<exists>r' \<in> set (table (mark_in_flight now ids s)). ID r' = ID r \<and> Status r' = StatusInFlight"
proof -
  assume r: "r \<in> set (table s)" and i: "ID r \<in> set ids"
  let ?g = "\<lambda>r. if ID r \<in> set ids then r\<lparr>Status := StatusInFlight, UpdatedAt := now\<rparr> else r"
  have "?g r \<in> ?g ` set (table s)" using r by (rule imageI)
  then have "r\<lparr>Status := StatusInFlight, UpdatedAt := now\<rparr> \<in> set (table (mark_in_flight now ids s))"
    using i by (simp add: mark_in_flight_def)
  then show ?thesis by (rule bexI[rotated]) simp
qed

text \<open>
  Claim C2. \<^verbatim>\<open>FetchPendingBatch\<close> always returns (the model is a total function: it reads
  the table once and never waits for rows to appear). With no pending row it changes
  nothing and returns the empty list, or the error of a failing driver; with a healthy
  driver it returns the empty list. In general a call that returns an error changes
  nothing, and a call that returns tasks has stored every one of them as in flight: each
  returned task has a row under its id, and every row under a returned id is in flight.
\<close>

theorem FetchPendingBatch_atomic:
  assumes run: "FetchPendingBatch f now s n = (s', res)"
  shows "(count_status StatusPending s = 0 \<longrightarrow>
            s' = s \<and> (res = Inr [] \<or> (\<exists>e. res = Inl e))
          \<and> (\<not> f FailBegin \<and> \<not> f FailQuery \<and> \<not> f FailRowsErr \<longrightarrow> res = Inr []))
       \<and> (\<forall>e. res = Inl e \<longrightarrow> s' = s)
       \<and> (\<forall>tasks. res = Inr tasks \<longrightarrow>
            (\<forall>t \<in> set tasks. \<exists>r \<in> set (table s'). ID r = ID t \<and> Status r = StatusInFlight)
          \<and> (\<forall>r \<in> set (table s'). ID r \<in> ID ` set tasks \<longrightarrow> Status r = StatusInFlight))"
proof -
  have empty: "count_status StatusPending s = 0 \<longrightarrow>
            s' = s \<and> (res = Inr [] \<or> (\<exists>e. res = Inl e))
          \<and> (\<not> f FailBegin \<and> \<not> f FailQuery \<and> \<not> f FailRowsErr \<longrightarrow> res = Inr [])"
  proof
    assume "count_status StatusPending s = 0"
    then have sel: "select_pending s n = []" by (rule select_pending_none)
    from run show "s' = s \<and> (res = Inr [] \<or> (\<exists>e. res = Inl e))
          \<and> (\<not> f FailBegin \<and> \<not> f FailQuery \<and> \<not> f FailRowsErr \<longrightarrow> res = Inr [])"
      by (auto simp: FetchPendingBatch_def sel split: if_splits)
  qed
  have err: "\<forall>e. res = Inl e \<longrightarrow> s' = s"
    using run FetchPendingBatch_error by blast
  have ok: "\<forall>tasks. res = Inr tasks \<longrightarrow>
            (\<forall>t \<in> set tasks. \<exists>r \<in> set (table s'). ID r = ID t \<and> Status r = StatusInFlight)
          \<and> (\<forall>r \<in> set (table s'). ID r \<in> ID ` set tasks \<longrightarrow> Status r = StatusInFlight)"
  proof (intro allI impI)
    fix tasks
    assume res: "res = Inr tasks"
    with run have fetch: "FetchPendingBatch f now s n = (s', Inr tasks)" by simp
    from FetchPendingBatch_success[OF fetch]
    have scan: "scan_rows f 0 (select_pending s n) = Inr tasks"
      and upd: "tasks \<noteq> [] \<Longrightarrow> s' = mark_in_flight now (map ID tasks) s"
      by (auto split: if_splits)
    have ids: "map ID tasks = map ID (select_pending s n)" using scan by (rule scan_rows_ids)
    show "(\<forall>t \<in> set tasks. \<exists>r \<in> set (table s'). ID r = ID t \<and> Status r = StatusInFlight)
          \<and> (\<forall>r \<in> set (table s'). ID r \<in> ID ` set tasks \<longrightarrow> Status r = StatusInFlight)"
    proof (cases "tasks = []")
      case True
      then show ?thesis by simp
    next
      case False
      then have s': "s' = mark_in_flight now (map ID tasks) s" by (rule upd)
      have one: "\<forall>t \<in> set tasks. \<exists>r \<in> set (table s'). ID r = ID t \<and> Status r = StatusInFlight"
      proof
        fix t assume "t \<in> set tasks"
        then have "ID t \<in> set (map ID (select_pending s n))" using ids by (metis image_eqI set_map)
        then obtain r0 where r0: "r0 \<in> set (select_pending s n)" "ID r0 = ID t" by auto
        then have "r0 \<in> set (table s)" using select_pending_subset by blast
        moreover have "ID r0 \<in> set (map ID (select_pending s n))" using r0(1) by simp
        then have "ID r0 \<in> set (map ID tasks)" using ids by simp
        ultimately show "\<exists>r \<in> set (table s'). ID r = ID t \<and> Status r = StatusInFlight"
          unfolding s' using mark_in_flight_has_row r0(2) by metis
      qed
      have two: "\<forall>r \<in> set (table s'). ID r \<in> ID ` set tasks \<longrightarrow> Status r = StatusInFlight"
        unfolding s' using mark_in_flight_status by (metis set_map)
      from one two show ?thesis by blast
    qed
  qed
  from empty err ok show ?thesis by blast
qed


text \<open>
  The claim at the test's store with a batch size of 2, at the empty store, and with a
  failing commit.
\<close>

theorem FetchPendingBatch_atomic_witness:
  "FetchPendingBatch no_faults 7 test_store 2 = (claimed_store, Inr claimed_batch)
   \<and> Status (table claimed_store ! 0) = StatusInFlight
   \<and> Status (table claimed_store ! 1) = StatusInFlight
   \<and> count_status StatusPending empty_store = 0
   \<and> FetchPendingBatch no_faults 7 empty_store 2 = (empty_store, Inr [])
   \<and> FetchPendingBatch commit_fails 7 test_store 2 = (test_store, Inl ErrCommit)"
proof -
  have run: "FetchPendingBatch no_faults 7 test_store 2 = (claimed_store, Inr claimed_batch)"
    by (simp add: FetchPendingBatch_def no_faults_def test_store_def claimed_store_def
        claimed_batch_def sample_row_def select_pending_def mark_in_flight_def)
  from FetchPendingBatch_atomic [OF run]
  have all: "\<forall>r \<in> set (table claimed_store). ID r \<in> ID ` set claimed_batch \<longrightarrow> Status r = StatusInFlight"
    by blast
  have mem: "table claimed_store ! 0 \<in> set (table claimed_store)"
    "table claimed_store ! 1 \<in> set (table claimed_store)"
    "ID (table claimed_store ! 0) \<in> ID ` set claimed_batch"
    "ID (table claimed_store ! 1) \<in> ID ` set claimed_batch"
    by (simp_all add: claimed_store_def claimed_batch_def sample_row_def)
  from all mem have fl: "Status (table claimed_store ! 0) = StatusInFlight"
    "Status (table claimed_store ! 1) = StatusInFlight"
    by blast+
  have none: "count_status StatusPending empty_store = 0"
    by (simp add: count_status_def empty_store_def)
  have healthy: "\<not> no_faults FailBegin \<and> \<not> no_faults FailQuery \<and> \<not> no_faults FailRowsErr"
    by (simp add: no_faults_def)
  have "FetchPendingBatch no_faults 7 empty_store 2
        = (fst (FetchPendingBatch no_faults 7 empty_store 2),
           snd (FetchPendingBatch no_faults 7 empty_store 2))"
    by simp
  from FetchPendingBatch_atomic [OF this] none healthy
  have "fst (FetchPendingBatch no_faults 7 empty_store 2) = empty_store"
    and "snd (FetchPendingBatch no_faults 7 empty_store 2) = Inr []"
    by blast+
  then have idle: "FetchPendingBatch no_faults 7 empty_store 2 = (empty_store, Inr [])"
    by (simp add: prod_eq_iff)
  have "snd (FetchPendingBatch commit_fails 7 test_store 2) = Inl ErrCommit"
    by (simp add: FetchPendingBatch_def commit_fails_def test_store_def sample_row_def
        select_pending_def)
  with FetchPendingBatch_atomic [of commit_fails 7 test_store 2
      "fst (FetchPendingBatch commit_fails 7 test_store 2)"
      "snd (FetchPendingBatch commit_fails 7 test_store 2)"]
  have "FetchPendingBatch commit_fails 7 test_store 2 = (test_store, Inl ErrCommit)"
    by (simp add: prod_eq_iff)
  with run fl none idle show ?thesis by simp
qed

text \<open>
  Two claims one after the other return no task twice: what the first returned is in
  flight when the second selects the pending rows.
\<close>

lemma FetchPendingBatch_twice_disjoint:
  assumes first: "FetchPendingBatch f now s n = (s1, Inr a)"
    and second: "FetchPendingBatch g now' s1 m = (s2, Inr b)"
  shows "ID ` set a \<inter> ID ` set b = {}"
proof (cases "a = []")
  case True
  then show ?thesis by simp
next
  case False
  with FetchPendingBatch_success[OF first] have s1: "s1 = mark_in_flight now (map ID a) s"
    by simp
  from FetchPendingBatch_success[OF second]
  have "scan_rows g 0 (select_pending s1 m) = Inr b" by blast
  then have "map ID b = map ID (select_pending s1 m)" by (rule scan_rows_ids)
  then have b: "ID ` set b = ID ` set (select_pending s1 m)" by (metis set_map)
  have "\<And>r x. r \<in> set (select_pending s1 m) \<Longrightarrow> x \<in> set a \<Longrightarrow> ID x \<noteq> ID r"
  proof
    fix r x assume r: "r \<in> set (select_pending s1 m)" and x: "x \<in> set a" and eq: "ID x = ID r"
    from x have "ID x \<in> ID ` set a" by (rule imageI)
    with eq have "ID r \<in> set (map ID a)" by simp
    moreover from r have "r \<in> set (table s1)" "Status r = StatusPending"
      using select_pending_subset by blast+
    ultimately show False using mark_in_flight_status[of r now "map ID a" s] s1 by simp
  qed
  then have "ID ` set a \<inter> ID ` set (select_pending s1 m) = {}" by blast
  with b show ?thesis by simp
qed

section \<open>Properties of the prompt\<close>

lemma marshal_Method: "marshal_indent d (Method_value m) = Inr (Method_text d m)"
  by (simp add: Method_value_def Method_text_def)

lemma marshal_Methods:
  "marshal_elems d (map Method_value ms) = Inr (map (Method_text d) ms)"
  by (induction ms) (simp_all add: marshal_Method)

lemma formatPrompt_returns:
  "\<exists>jsonData. formatPrompt tasks = Inr (preamble @ jsonData)"
  by (simp add: formatPrompt_def json_MarshalIndent_def marshal_Methods)

text \<open>
  Claim C9. \<^verbatim>\<open>formatPrompt\<close> returns a prompt for every list of tasks: the encoder fails
  only on channels, functions and complex numbers, and the value it is given is a slice
  of structs of two strings. So no pass of the worker takes the branch that follows a
  failed \<^verbatim>\<open>formatPrompt\<close>.
\<close>

theorem formatPrompt_total:
  "(\<exists>prompt. formatPrompt tasks = Inr prompt)
   \<and> snd (worker_pass fl clk llm s batchSize maxRetries) \<noteq> FormatFailed"
proof -
  have total: "\<And>ts. \<exists>prompt. formatPrompt ts = Inr prompt"
    using formatPrompt_returns by blast
  have "snd (worker_pass fl clk llm s batchSize maxRetries) \<noteq> FormatFailed"
  proof (cases "FetchPendingBatch (fl 0) (clk 0) s batchSize")
    case (Pair s1 res)
    show ?thesis
    proof (cases res)
      case (Inl e)
      with Pair show ?thesis by (simp add: worker_pass_def)
    next
      case (Inr ts)
      from total[of ts] obtain prompt where p: "formatPrompt ts = Inr prompt" by blast
      show ?thesis
        using Pair Inr p by (cases "llm prompt") (simp_all add: worker_pass_def)
    qed
  qed
  with total show ?thesis by blast
qed

text \<open>The claim at the empty batch and at a pass over the empty store.\<close>

theorem formatPrompt_total_witness:
  "formatPrompt [] = Inr (preamble @ ''[]'')
   \<and> snd (worker_pass (\<lambda>_. no_faults) (\<lambda>k. k) (\<lambda>_. Inr []) empty_store 10 3) = NoMoreTasks"
  using formatPrompt_total [of "[]" "\<lambda>_. no_faults" "\<lambda>k. k" "\<lambda>_. Inr []" empty_store 10 3]
  by (simp add: formatPrompt_def json_MarshalIndent_def worker_pass_def FetchPendingBatch_def
      no_faults_def select_pending_def empty_store_def)

section \<open>Properties of the worker\<close>

subsection \<open>Rows outside the claimed batch\<close>

lemma same_rows_outside_refl: "same_rows_outside ids s s"
  by (simp add: same_rows_outside_def)

lemma same_rows_outside_length:
  "same_rows_outside ids s s' \<Longrightarrow> length (table s') = length (table s)"
  unfolding same_rows_outside_def by (metis length_map)

lemma same_rows_outside_trans:
  assumes a: "same_rows_outside ids s s1" and b: "same_rows_outside ids s1 s2"
  shows "same_rows_outside ids s s2"
proof -
  have len: "length (table s1) = length (table s)" using a by (rule same_rows_outside_length)
  have ids1: "map ID (table s1) = map ID (table s)" using a by (simp add: same_rows_outside_def)
  have ids2: "map ID (table s2) = map ID (table s1)" using b by (simp add: same_rows_outside_def)
  have "\<forall>k < length (table s). ID (table s ! k) \<notin> ids \<longrightarrow> table s2 ! k = table s ! k"
  proof (intro allI impI)
    fix k assume k: "k < length (table s)" and out: "ID (table s ! k) \<notin> ids"
    then have one: "table s1 ! k = table s ! k" using a by (simp add: same_rows_outside_def)
    with out have "ID (table s1 ! k) \<notin> ids" by simp
    moreover have "k < length (table s1)" using k len by simp
    ultimately have "table s2 ! k = table s1 ! k" using b by (simp add: same_rows_outside_def)
    with one show "table s2 ! k = table s ! k" by simp
  qed
  with ids1 ids2 show ?thesis by (simp add: same_rows_outside_def)
qed

lemma same_rows_outside_mono:
  "same_rows_outside ids s s' \<Longrightarrow> ids \<subseteq> ids' \<Longrightarrow> same_rows_outside ids' s s'"
  unfolding same_rows_outside_def by blast

lemma same_rows_outside_UpdateTaskFailure:
  "i \<in> ids \<Longrightarrow> same_rows_outside ids s (fst (UpdateTaskFailure f now s i msg rc))"
  by (auto simp: same_rows_outside_def UpdateTaskFailure_def comp_def)

lemma same_rows_outside_UpdateTaskSuccess:
  "i \<in> ids \<Longrightarrow> same_rows_outside ids s (fst (UpdateTaskSuccess f now s i src))"
  by (auto simp: same_rows_outside_def UpdateTaskSuccess_def comp_def)

lemma same_rows_outside_mark_in_flight:
  "set taskIDs \<subseteq> ids \<Longrightarrow> same_rows_outside ids s (mark_in_flight now taskIDs s)"
  by (auto simp: same_rows_outside_def mark_in_flight_def comp_def)

lemma same_rows_outside_fail_batch_format:
  "ID ` set tasks \<subseteq> ids \<Longrightarrow> same_rows_outside ids s (fail_batch_format fl clk k s tasks)"
proof (induction tasks arbitrary: k s)
  case Nil
  then show ?case by (simp add: same_rows_outside_refl)
next
  case (Cons t ts)
  let ?s1 = "fst (UpdateTaskFailure (fl k) (clk k) s (ID t) ''Failed to format prompt'' (Retries t + 1))"
  have "same_rows_outside ids s ?s1" using Cons.prems by (simp add: same_rows_outside_UpdateTaskFailure)
  moreover have "same_rows_outside ids ?s1 (fail_batch_format fl clk (Suc k) ?s1 ts)"
    using Cons.prems by (intro Cons.IH) simp
  ultimately show ?case by (simp add: same_rows_outside_trans)
qed

lemma same_rows_outside_fail_batch_transport:
  "ID ` set tasks \<subseteq> ids \<Longrightarrow>
   same_rows_outside ids s (fail_batch_transport fl clk k s maxRetries err tasks)"
proof (induction tasks arbitrary: k s)
  case Nil
  then show ?case by (simp add: same_rows_outside_refl)
next
  case (Cons t ts)
  let ?s1 = "if Retries t <s maxRetries
        then fst (UpdateTaskFailure (fl k) (clk k) s (ID t) err (Retries t + 1))
        else fst (UpdateTaskFailure (fl k) (clk k) s (ID t) ''Max retries exceeded'' (Retries t))"
  have "same_rows_outside ids s ?s1" using Cons.prems by (simp add: same_rows_outside_UpdateTaskFailure)
  moreover have "same_rows_outside ids ?s1 (fail_batch_transport fl clk (Suc k) ?s1 maxRetries err ts)"
    using Cons.prems by (intro Cons.IH) simp
  ultimately have "same_rows_outside ids s (fail_batch_transport fl clk (Suc k) ?s1 maxRetries err ts)"
    by (rule same_rows_outside_trans)
  then show ?case by simp
qed

lemma build_taskMap_aux:
  "foldl (\<lambda>m task. m(SymbolName task \<mapsto> task)) m0 tasks y = Some t \<Longrightarrow>
   (t \<in> set tasks \<and> SymbolName t = y) \<or> m0 y = Some t"
  by (induction tasks arbitrary: m0) (fastforce split: if_splits)+

lemma build_taskMap_Some:
  "build_taskMap tasks y = Some t \<Longrightarrow> t \<in> set tasks \<and> SymbolName t = y"
  using build_taskMap_aux[of Map.empty tasks y t] by (simp add: build_taskMap_def)

lemma build_taskMap_dom_aux:
  "dom (foldl (\<lambda>m task. m(SymbolName task \<mapsto> task)) m0 tasks) = dom m0 \<union> SymbolName ` set tasks"
  by (induction tasks arbitrary: m0) auto

lemma build_taskMap_None:
  "build_taskMap tasks y = None \<longleftrightarrow> y \<notin> SymbolName ` set tasks"
proof -
  have "dom (build_taskMap tasks) = SymbolName ` set tasks"
    using build_taskMap_dom_aux[of Map.empty tasks] by (simp add: build_taskMap_def)
  then show ?thesis by (metis domIff)
qed

lemma build_taskMap_fold:
  "foldl (\<lambda>m task. m(SymbolName task \<mapsto> task)) m0 tasks y =
     (if filter (\<lambda>t. SymbolName t = y) tasks = [] then m0 y
      else Some (last (filter (\<lambda>t. SymbolName t = y) tasks)))"
  by (induction tasks rule: rev_induct) auto

lemma build_taskMap_last:
  "build_taskMap tasks y = Some t \<Longrightarrow> t = last (filter (\<lambda>t. SymbolName t = y) tasks)"
  by (simp add: build_taskMap_def build_taskMap_fold split: if_splits)

lemma same_rows_outside_apply_result:
  "\<forall>y t. taskMap y = Some t \<longrightarrow> ID t \<in> ids \<Longrightarrow>
   same_rows_outside ids s (apply_result f now s taskMap result)"
  by (auto simp: apply_result_def same_rows_outside_refl same_rows_outside_UpdateTaskFailure
      same_rows_outside_UpdateTaskSuccess split: option.splits)

lemma same_rows_outside_apply_results:
  "\<forall>y t. taskMap y = Some t \<longrightarrow> ID t \<in> ids \<Longrightarrow>
   same_rows_outside ids s (apply_results fl clk k s taskMap results)"
proof (induction results arbitrary: k s)
  case Nil
  then show ?case by (simp add: same_rows_outside_refl)
next
  case (Cons r rs)
  let ?s1 = "apply_result (fl k) (clk k) s taskMap r"
  have "same_rows_outside ids s ?s1" using Cons.prems by (rule same_rows_outside_apply_result)
  moreover have "same_rows_outside ids ?s1 (apply_results fl clk (Suc k) ?s1 taskMap rs)"
    using Cons.prems by (rule Cons.IH)
  ultimately show ?case by (simp add: same_rows_outside_trans)
qed

lemma FetchPendingBatch_ids_pending:
  assumes "FetchPendingBatch f now s n = (s1, Inr tasks)"
  shows "ID ` set tasks \<subseteq> pending_ids s"
proof -
  from FetchPendingBatch_success[OF assms]
  have "scan_rows f 0 (select_pending s n) = Inr tasks" by blast
  then have "map ID tasks = map ID (select_pending s n)" by (rule scan_rows_ids)
  then have "ID ` set tasks = ID ` set (select_pending s n)" by (metis set_map)
  also have "\<dots> \<subseteq> pending_ids s"
    unfolding pending_ids_def using select_pending_subset[of s n] by blast
  finally show ?thesis .
qed

lemma same_rows_outside_FetchPendingBatch:
  "same_rows_outside (pending_ids s) s (fst (FetchPendingBatch f now s n))"
proof (cases "FetchPendingBatch f now s n")
  case (Pair s1 res)
  show ?thesis
  proof (cases res)
    case (Inl e)
    with Pair have "s1 = s" by (simp add: FetchPendingBatch_error)
    with Pair show ?thesis by (simp add: same_rows_outside_refl)
  next
    case (Inr tasks)
    with Pair have fetch: "FetchPendingBatch f now s n = (s1, Inr tasks)" by simp
    have sub: "set (map ID tasks) \<subseteq> pending_ids s"
      using FetchPendingBatch_ids_pending[OF fetch] by simp
    from FetchPendingBatch_success[OF fetch]
    have "s1 = s \<or> s1 = mark_in_flight now (map ID tasks) s" by (auto split: if_splits)
    then show ?thesis
      using Pair sub same_rows_outside_mark_in_flight[of "map ID tasks" "pending_ids s" s now]
      by (auto simp: same_rows_outside_refl)
  qed
qed

lemma same_rows_outside_worker_pass:
  "same_rows_outside (pending_ids s) s (fst (worker_pass fl clk llm s batchSize maxRetries))"
proof (cases "FetchPendingBatch (fl 0) (clk 0) s batchSize")
  case (Pair s1 res)
  have one: "same_rows_outside (pending_ids s) s s1"
    using same_rows_outside_FetchPendingBatch[of s "fl 0" "clk 0" batchSize] Pair by simp
  show ?thesis
  proof (cases res)
    case (Inl e)
    with Pair one show ?thesis by (simp add: worker_pass_def)
  next
    case (Inr tasks)
    with Pair have fetch: "FetchPendingBatch (fl 0) (clk 0) s batchSize = (s1, Inr tasks)" by simp
    have sub: "ID ` set tasks \<subseteq> pending_ids s" using fetch by (rule FetchPendingBatch_ids_pending)
    have tm: "\<forall>y t. build_taskMap tasks y = Some t \<longrightarrow> ID t \<in> pending_ids s"
      using build_taskMap_Some sub by blast
    have two: "same_rows_outside (pending_ids s) s1 (fst (worker_pass fl clk llm s batchSize maxRetries))"
      using Pair Inr
      by (auto simp: worker_pass_def same_rows_outside_refl
          same_rows_outside_fail_batch_format[OF sub]
          same_rows_outside_fail_batch_transport[OF sub]
          same_rows_outside_apply_results[OF tm]
          split: sum.splits)
    from one two show ?thesis by (rule same_rows_outside_trans)
  qed
qed

subsection \<open>Completed rows\<close>

lemma pending_ids_shrink:
  assumes fr: "same_rows_outside (pending_ids s) s s'"
  shows "pending_ids s' \<subseteq> pending_ids s"
proof
  fix i assume "i \<in> pending_ids s'"
  then obtain r where r: "r \<in> set (table s')" "Status r = StatusPending" "ID r = i"
    by (auto simp: pending_ids_def)
  then obtain k where k: "k < length (table s')" "table s' ! k = r"
    by (auto simp: in_set_conv_nth)
  have len: "length (table s') = length (table s)" using fr by (rule same_rows_outside_length)
  have "map ID (table s') ! k = map ID (table s) ! k" using fr by (simp add: same_rows_outside_def)
  then have same_id: "ID (table s ! k) = i" using k r len by simp
  show "i \<in> pending_ids s"
  proof (cases "ID (table s ! k) \<in> pending_ids s")
    case True
    with same_id show ?thesis by simp
  next
    case False
    then have "table s' ! k = table s ! k" using fr k len by (simp add: same_rows_outside_def)
    then have "table s ! k \<in> set (table s)" "Status (table s ! k) = StatusPending"
      using k r len by auto
    then have "ID (table s ! k) \<in> pending_ids s" by (auto simp: pending_ids_def)
    with same_id show ?thesis by simp
  qed
qed

lemma same_rows_outside_worker_passes:
  "same_rows_outside (pending_ids s) s (worker_passes ps s)"
proof (induction ps arbitrary: s)
  case Nil
  show ?case by (simp add: same_rows_outside_refl)
next
  case (Cons p ps)
  obtain fl clk llm batchSize maxRetries where p: "p = (fl, clk, llm, batchSize, maxRetries)"
    by (cases p) auto
  let ?s1 = "fst (worker_pass fl clk llm s batchSize maxRetries)"
  have one: "same_rows_outside (pending_ids s) s ?s1" by (rule same_rows_outside_worker_pass)
  then have "pending_ids ?s1 \<subseteq> pending_ids s" by (rule pending_ids_shrink)
  with Cons.IH[of ?s1] have "same_rows_outside (pending_ids s) ?s1 (worker_passes ps ?s1)"
    by (rule same_rows_outside_mono)
  with one have "same_rows_outside (pending_ids s) s (worker_passes ps ?s1)"
    by (rule same_rows_outside_trans)
  then show ?case by (simp add: p)
qed

lemma not_pending_outside:
  assumes wf: "distinct (map ID (table s))"
    and k: "k < length (table s)" and st: "Status (table s ! k) \<noteq> StatusPending"
  shows "ID (table s ! k) \<notin> pending_ids s"
proof
  assume "ID (table s ! k) \<in> pending_ids s"
  then obtain r where r: "r \<in> set (table s)" "Status r = StatusPending" "ID r = ID (table s ! k)"
    by (auto simp: pending_ids_def)
  then obtain j where j: "j < length (table s)" "table s ! j = r"
    by (auto simp: in_set_conv_nth)
  then have e: "map ID (table s) ! j = map ID (table s) ! k" using r k by simp
  have "j < length (map ID (table s))" "k < length (map ID (table s))" using j k by simp_all
  with e wf have "j = k" by (metis nth_eq_iff_index_eq)
  with j r st show False by simp
qed

text \<open>
  Claim C3, as the code has it. A row that is completed when a pass of the worker loop
  begins is the same row, in every field, after that pass and after any number of further
  passes; and an update addressed to another id leaves it as it is. (The updates carry no
  guard on the status: an update addressed to the row's own id overwrites it, which the
  counterexample below reaches inside the pass that completed the row.)
\<close>

theorem completed_rows_stable:
  assumes wf: "distinct (map ID (table s))"
    and k: "k < length (table s)"
    and fin: "Status (table s ! k) = StatusCompleted"
  shows "length (table (worker_passes ps s)) = length (table s)
       \<and> table (worker_passes ps s) ! k = table s ! k
       \<and> (i \<noteq> ID (table s ! k) \<longrightarrow>
            table (fst (UpdateTaskSuccess f now s i src)) ! k = table s ! k
          \<and> table (fst (UpdateTaskFailure f now s i msg rc)) ! k = table s ! k)"
proof -
  have out: "ID (table s ! k) \<notin> pending_ids s"
    using wf k fin by (intro not_pending_outside) simp_all
  have fr: "same_rows_outside (pending_ids s) s (worker_passes ps s)"
    by (rule same_rows_outside_worker_passes)
  have a: "length (table (worker_passes ps s)) = length (table s)"
    using fr by (rule same_rows_outside_length)
  have b: "table (worker_passes ps s) ! k = table s ! k"
    using fr k out by (simp add: same_rows_outside_def)
  have c: "i \<noteq> ID (table s ! k) \<longrightarrow>
            table (fst (UpdateTaskSuccess f now s i src)) ! k = table s ! k
          \<and> table (fst (UpdateTaskFailure f now s i msg rc)) ! k = table s ! k"
    using k same_rows_outside_UpdateTaskSuccess[of i "{i}" s f now src]
      same_rows_outside_UpdateTaskFailure[of i "{i}" s f now msg rc]
    by (auto simp: same_rows_outside_def)
  from a b c show ?thesis by blast
qed

text \<open>
  The claim as the specification words it fails inside one pass: when the reply names a
  symbol twice, first as decompiled and then as failed, the row is completed by the
  first result and then turned into a failed row by the second.
\<close>

theorem completed_rows_stable_counterexample:
  "Status (table (apply_results healthy tick 1 claimed_store (build_taskMap claimed_batch)
                   (take 1 flip_reply)) ! 0) = StatusCompleted
   \<and> Status (table (apply_results healthy tick 1 claimed_store (build_taskMap claimed_batch)
                   flip_reply) ! 0) = StatusFailed
   \<and> ErrorMessage (table (apply_results healthy tick 1 claimed_store (build_taskMap claimed_batch)
                   flip_reply) ! 0) = Some ''oops''"
  by (simp add: healthy_def tick_def no_faults_def claimed_store_def claimed_batch_def
      flip_reply_def build_taskMap_def apply_result_def UpdateTaskSuccess_def
      UpdateTaskFailure_def sample_row_def)

text \<open>The claim at the completed row of a store, over a pass in which the model is down.\<close>

theorem completed_rows_stable_witness:
  "distinct (map ID (table completed_store))
   \<and> 1 < length (table completed_store)
   \<and> Status (table completed_store ! 1) = StatusCompleted
   \<and> 1 \<noteq> ID (table completed_store ! 1)
   \<and> table (worker_passes [(healthy, tick, down_llm, 10, 3)] completed_store) ! 1
       = table completed_store ! 1
   \<and> table (fst (UpdateTaskFailure no_faults 9 completed_store 1 ''oops'' 0)) ! 1
       = table completed_store ! 1"
proof -
  have wf: "distinct (map ID (table completed_store))"
    and k: "1 < length (table completed_store)"
    and st: "Status (table completed_store ! 1) = StatusCompleted"
    and i: "1 \<noteq> ID (table completed_store ! 1)"
    by (simp_all add: completed_store_def sample_row_def)
  from completed_rows_stable [OF wf k st, of "[(healthy, tick, down_llm, 10, 3)]" 1
      no_faults 9 "''src''" "''oops''" 0] i
  have "table (worker_passes [(healthy, tick, down_llm, 10, 3)] completed_store) ! 1
       = table completed_store ! 1"
    and "table (fst (UpdateTaskFailure no_faults 9 completed_store 1 ''oops'' 0)) ! 1
       = table completed_store ! 1"
    by blast+
  with wf k st i show ?thesis by blast
qed

subsection \<open>The claimed batch and its rows\<close>

lemma sint_succ_below:
  fixes x y :: "64 word"
  assumes "x <s y"
  shows "sint (x + 1) = sint x + 1"
proof -
  have lt: "sint x < sint y" using assms by (simp add: word_sless_alt)
  have up: "sint y < 2 ^ 63" using sint_lt[of y] by simp
  have lo: "- (2 ^ 63) \<le> sint x" using sint_ge[of x] by simp
  have "sint (x + 1) = signed_take_bit 63 (sint x + 1)"
    by (simp add: sint_word_ariths)
  also have "\<dots> = sint x + 1"
    using lt up lo by (simp add: signed_take_bit_int_eq_self_iff)
  finally show ?thesis .
qed

lemma select_pending_distinct:
  assumes "distinct (map ID (table s))"
  shows "distinct (map ID (select_pending s n))"
proof -
  have "distinct (map ID (filter (\<lambda>r. Status r = StatusPending) (table s)))"
    using assms by (rule distinct_map_filter)
  then show ?thesis
    by (simp add: select_pending_def Let_def take_map[symmetric] del: take_map)
qed

lemma FetchPendingBatch_batch_rows:
  assumes wf: "distinct (map ID (table s))"
    and fetch: "FetchPendingBatch f now s n = (s1, Inr tasks)"
  shows "distinct (map ID tasks)"
    and "\<forall>t \<in> set tasks. \<exists>k < length (table s).
            ID (table s ! k) = ID t \<and> Retries (table s ! k) = Retries t
          \<and> Status (table s ! k) = StatusPending"
    and "map ID (table s1) = map ID (table s)"
    and "map Retries (table s1) = map Retries (table s)"
proof -
  from FetchPendingBatch_success[OF fetch]
  have scan: "scan_rows f 0 (select_pending s n) = Inr tasks"
    and s1: "s1 = s \<or> s1 = mark_in_flight now (map ID tasks) s"
    by (auto split: if_splits)
  have ids: "map ID tasks = map ID (select_pending s n)" using scan by (rule scan_rows_ids)
  then show "distinct (map ID tasks)" using select_pending_distinct[OF wf] by simp
  have tasks: "tasks = map (\<lambda>r. r\<lparr>DecompiledSource := None, ErrorMessage := None\<rparr>) (select_pending s n)"
    using scan by (rule scan_rows_fields)
  show "\<forall>t \<in> set tasks. \<exists>k < length (table s).
            ID (table s ! k) = ID t \<and> Retries (table s ! k) = Retries t
          \<and> Status (table s ! k) = StatusPending"
  proof
    fix t assume "t \<in> set tasks"
    with tasks obtain r where r: "r \<in> set (select_pending s n)" "ID r = ID t" "Retries r = Retries t"
      by auto
    then have "r \<in> set (table s)" "Status r = StatusPending"
      using select_pending_subset by blast+
    then obtain k where "k < length (table s)" "table s ! k = r"
      by (auto simp: in_set_conv_nth)
    with r \<open>Status r = StatusPending\<close>
    show "\<exists>k < length (table s). ID (table s ! k) = ID t \<and> Retries (table s ! k) = Retries t
          \<and> Status (table s ! k) = StatusPending"
      by blast
  qed
  show "map ID (table s1) = map ID (table s)"
    using s1 by (auto simp: mark_in_flight_def comp_def)
  show "map Retries (table s1) = map Retries (table s)"
    using s1 by (auto simp: mark_in_flight_def comp_def)
qed

lemma UpdateTaskFailure_nth:
  "\<not> f (FailExec 0) \<Longrightarrow> k < length (table s) \<Longrightarrow>
   table (fst (UpdateTaskFailure f now s i msg rc)) ! k =
     (if ID (table s ! k) = i
      then (table s ! k)\<lparr>Status := StatusFailed, ErrorMessage := Some msg, Retries := rc,
                          UpdatedAt := now\<rparr>
      else table s ! k)"
  by (simp add: UpdateTaskFailure_def)

lemma UpdateTaskFailure_refused:
  "f (FailExec 0) \<Longrightarrow> fst (UpdateTaskFailure f now s i msg rc) = s"
  by (simp add: UpdateTaskFailure_def)

lemma fail_batch_transport_nth:
  assumes "distinct (map ID tasks)" and "j < length tasks"
    and "k < length (table s)" and "ID (table s ! k) = ID (tasks ! j)"
  shows "table (fail_batch_transport fl clk start s maxRetries err tasks) ! k =
           (if fl (start + j) (FailExec 0) then table s ! k
            else (table s ! k)
                   \<lparr>Status := StatusFailed,
                    ErrorMessage := Some (if Retries (tasks ! j) <s maxRetries then err
                                          else ''Max retries exceeded''),
                    Retries := (if Retries (tasks ! j) <s maxRetries then Retries (tasks ! j) + 1
                                else Retries (tasks ! j)),
                    UpdatedAt := clk (start + j)\<rparr>)"
  using assms
proof (induction tasks arbitrary: start s j)
  case Nil
  then show ?case by simp
next
  case (Cons h rest)
  let ?s1 = "if Retries h <s maxRetries
        then fst (UpdateTaskFailure (fl start) (clk start) s (ID h) err (Retries h + 1))
        else fst (UpdateTaskFailure (fl start) (clk start) s (ID h) ''Max retries exceeded'' (Retries h))"
  let ?s2 = "fail_batch_transport fl clk (Suc start) ?s1 maxRetries err rest"
  have fr1: "same_rows_outside {ID h} s ?s1"
    by (simp add: same_rows_outside_UpdateTaskFailure)
  then have len1: "length (table ?s1) = length (table s)" by (rule same_rows_outside_length)
  have final: "fail_batch_transport fl clk start s maxRetries err (h # rest) = ?s2" by simp
  show ?case
  proof (cases j)
    case 0
    then have idk: "ID (table s ! k) = ID h" using Cons.prems(4) by simp
    have row: "table ?s1 ! k =
           (if fl start (FailExec 0) then table s ! k
            else (table s ! k)
                   \<lparr>Status := StatusFailed,
                    ErrorMessage := Some (if Retries h <s maxRetries then err
                                          else ''Max retries exceeded''),
                    Retries := (if Retries h <s maxRetries then Retries h + 1 else Retries h),
                    UpdatedAt := clk start\<rparr>)"
      using Cons.prems(3) idk
      by (cases "fl start (FailExec 0)") (simp_all add: UpdateTaskFailure_refused UpdateTaskFailure_nth)
    have "map ID (table ?s1) ! k = map ID (table s) ! k"
      using fr1 by (simp add: same_rows_outside_def)
    then have "ID (table ?s1 ! k) = ID h" using idk Cons.prems(3) len1 by simp
    then have "ID (table ?s1 ! k) \<notin> ID ` set rest" using Cons.prems(1) by auto
    moreover have "same_rows_outside (ID ` set rest) ?s1 ?s2"
      by (rule same_rows_outside_fail_batch_transport) simp
    ultimately have "table ?s2 ! k = table ?s1 ! k"
      using Cons.prems(3) len1 by (simp add: same_rows_outside_def)
    with row 0 show ?thesis by (simp only: final nth_Cons_0 add_0_right)
  next
    case (Suc j')
    then have j': "j' < length rest" and tj: "(h # rest) ! j = rest ! j'"
      using Cons.prems(2) by simp_all
    then have "rest ! j' \<in> set rest" by simp
    then have "ID (rest ! j') \<in> ID ` set rest" by (rule imageI)
    moreover have "ID h \<notin> ID ` set rest" using Cons.prems(1) by simp
    ultimately have "ID (rest ! j') \<noteq> ID h" by metis
    then have out: "ID (table s ! k) \<notin> {ID h}" using Cons.prems(4) tj by simp
    then have same: "table ?s1 ! k = table s ! k"
      using fr1 Cons.prems(3) by (simp add: same_rows_outside_def)
    have "distinct (map ID rest)" using Cons.prems(1) by simp
    moreover have "k < length (table ?s1)" using Cons.prems(3) len1 by simp
    moreover have "ID (table ?s1 ! k) = ID (rest ! j')" using same Cons.prems(4) tj by simp
    ultimately have "table ?s2 ! k =
           (if fl (Suc start + j') (FailExec 0) then table ?s1 ! k
            else (table ?s1 ! k)
                   \<lparr>Status := StatusFailed,
                    ErrorMessage := Some (if Retries (rest ! j') <s maxRetries then err
                                          else ''Max retries exceeded''),
                    Retries := (if Retries (rest ! j') <s maxRetries then Retries (rest ! j') + 1
                                else Retries (rest ! j')),
                    UpdatedAt := clk (Suc start + j')\<rparr>)"
      using j' by (intro Cons.IH)
    then show ?thesis using same tj Suc by (simp only: final add_Suc_shift)
  qed
qed

lemma mark_in_flight_nth:
  "k < length (table s) \<Longrightarrow>
   table (mark_in_flight now ids s) ! k =
     (if ID (table s ! k) \<in> set ids
      then (table s ! k)\<lparr>Status := StatusInFlight, UpdatedAt := now\<rparr> else table s ! k)"
  by (simp add: mark_in_flight_def)

lemma worker_pass_CallFailed:
  assumes run: "worker_pass fl clk llm s batchSize maxRetries = (s2, CallFailed err)"
  shows "\<exists>s1 tasks. FetchPendingBatch (fl 0) (clk 0) s batchSize = (s1, Inr tasks) \<and> tasks \<noteq> []
           \<and> s2 = fail_batch_transport fl clk 1 s1 maxRetries err tasks"
proof (cases "FetchPendingBatch (fl 0) (clk 0) s batchSize")
  case (Pair s1 res)
  show ?thesis
  proof (cases res)
    case (Inl e)
    with Pair run show ?thesis by (simp add: worker_pass_def)
  next
    case (Inr tasks)
    obtain prompt where p: "formatPrompt tasks = Inr prompt"
      using formatPrompt_returns by blast
    show ?thesis
    proof (cases "llm prompt")
      case (Inl e)
      with Pair Inr p run have "tasks \<noteq> []" "e = err"
        "s2 = fail_batch_transport fl clk 1 s1 maxRetries err tasks"
        by (auto simp: worker_pass_def split: if_splits)
      with Pair Inr show ?thesis by simp
    next
      case (Inr results)
      with Pair \<open>res = Inr tasks\<close> p run show ?thesis
        by (simp add: worker_pass_def split: if_splits)
    qed
  qed
qed

text \<open>
  Claim C4, as the code has it. Take a store whose ids are pairwise different (the primary
  key) and a pass of the worker in which the model call fails with message \<open>err\<close>.
  Then the pass claimed a non-empty batch and made one update per task, in the order of
  the batch (the update for task \<open>j\<close> is store call \<open>j + 1\<close> of the pass). Where
  the store accepts the update, the task's row is failed afterwards: with error \<open>err\<close>
  and one retry more when its retries were below the cap (the increment does not wrap),
  with error \<^verbatim>\<open>Max retries exceeded\<close> and the same retries otherwise. Where the store
  refuses the update, the worker drops the error and the row stays as the claim left it:
  in flight.
\<close>

theorem transport_failure_fails_batch:
  assumes wf: "distinct (map ID (table s))"
    and run: "worker_pass fl clk llm s batchSize maxRetries = (s2, CallFailed err)"
  shows "\<exists>s1 tasks.
           FetchPendingBatch (fl 0) (clk 0) s batchSize = (s1, Inr tasks) \<and> tasks \<noteq> []
         \<and> length (table s2) = length (table s)
         \<and> (\<forall>j < length tasks. \<exists>k < length (table s).
                ID (table s ! k) = ID (tasks ! j) \<and> Retries (table s ! k) = Retries (tasks ! j)
              \<and> ID (table s2 ! k) = ID (tasks ! j)
              \<and> (if fl (Suc j) (FailExec 0)
                  then table s2 ! k
                         = (table s ! k)\<lparr>Status := StatusInFlight, UpdatedAt := clk 0\<rparr>
                  else Status (table s2 ! k) = StatusFailed
                     \<and> (if Retries (tasks ! j) <s maxRetries
                         then ErrorMessage (table s2 ! k) = Some err
                            \<and> Retries (table s2 ! k) = Retries (tasks ! j) + 1
                            \<and> sint (Retries (table s2 ! k)) = sint (Retries (tasks ! j)) + 1
                         else ErrorMessage (table s2 ! k) = Some ''Max retries exceeded''
                            \<and> Retries (table s2 ! k) = Retries (tasks ! j))))"
proof -
  from worker_pass_CallFailed[OF run] obtain s1 tasks where
    fetch: "FetchPendingBatch (fl 0) (clk 0) s batchSize = (s1, Inr tasks)"
    and ne: "tasks \<noteq> []"
    and s2: "s2 = fail_batch_transport fl clk 1 s1 maxRetries err tasks"
    by blast
  note rows = FetchPendingBatch_batch_rows[OF wf fetch]
  have s1: "s1 = mark_in_flight (clk 0) (map ID tasks) s"
    using FetchPendingBatch_success[OF fetch] ne by simp
  have len1: "length (table s1) = length (table s)" using rows(3) by (metis length_map)
  have fr: "same_rows_outside (ID ` set tasks) s1 s2"
    unfolding s2 by (rule same_rows_outside_fail_batch_transport) simp
  then have len2: "length (table s2) = length (table s1)" by (rule same_rows_outside_length)
  have ids2: "map ID (table s2) = map ID (table s1)" using fr by (simp add: same_rows_outside_def)
  have each: "\<forall>j < length tasks. \<exists>k < length (table s).
                ID (table s ! k) = ID (tasks ! j) \<and> Retries (table s ! k) = Retries (tasks ! j)
              \<and> ID (table s2 ! k) = ID (tasks ! j)
              \<and> (if fl (Suc j) (FailExec 0)
                  then table s2 ! k
                         = (table s ! k)\<lparr>Status := StatusInFlight, UpdatedAt := clk 0\<rparr>
                  else Status (table s2 ! k) = StatusFailed
                     \<and> (if Retries (tasks ! j) <s maxRetries
                         then ErrorMessage (table s2 ! k) = Some err
                            \<and> Retries (table s2 ! k) = Retries (tasks ! j) + 1
                            \<and> sint (Retries (table s2 ! k)) = sint (Retries (tasks ! j)) + 1
                         else ErrorMessage (table s2 ! k) = Some ''Max retries exceeded''
                            \<and> Retries (table s2 ! k) = Retries (tasks ! j)))"
  proof (intro allI impI)
    fix j assume j: "j < length tasks"
    then have mem: "tasks ! j \<in> set tasks" by simp
    with rows(2) obtain k where k: "k < length (table s)" "ID (table s ! k) = ID (tasks ! j)"
      "Retries (table s ! k) = Retries (tasks ! j)"
      by blast
    have "ID (tasks ! j) \<in> ID ` set tasks" using mem by (rule imageI)
    then have inb: "ID (table s ! k) \<in> set (map ID tasks)" using k(2) by simp
    have row1: "table s1 ! k = (table s ! k)\<lparr>Status := StatusInFlight, UpdatedAt := clk 0\<rparr>"
      using k(1) inb by (simp add: s1 mark_in_flight_nth)
    then have id1: "ID (table s1 ! k) = ID (tasks ! j)" using k(2) by simp
    have k1: "k < length (table s1)" using k len1 by simp
    have "map ID (table s2) ! k = map ID (table s1) ! k" using ids2 by simp
    then have id2: "ID (table s2 ! k) = ID (tasks ! j)" using id1 k1 len2 by simp
    have row2: "table s2 ! k =
           (if fl (1 + j) (FailExec 0) then table s1 ! k
            else (table s1 ! k)
                   \<lparr>Status := StatusFailed,
                    ErrorMessage := Some (if Retries (tasks ! j) <s maxRetries then err
                                          else ''Max retries exceeded''),
                    Retries := (if Retries (tasks ! j) <s maxRetries then Retries (tasks ! j) + 1
                                else Retries (tasks ! j)),
                    UpdatedAt := clk (1 + j)\<rparr>)"
      unfolding s2 by (rule fail_batch_transport_nth) (fact rows(1) j k1 id1)+
    have "if fl (Suc j) (FailExec 0)
                  then table s2 ! k
                         = (table s ! k)\<lparr>Status := StatusInFlight, UpdatedAt := clk 0\<rparr>
                  else Status (table s2 ! k) = StatusFailed
                     \<and> (if Retries (tasks ! j) <s maxRetries
                         then ErrorMessage (table s2 ! k) = Some err
                            \<and> Retries (table s2 ! k) = Retries (tasks ! j) + 1
                            \<and> sint (Retries (table s2 ! k)) = sint (Retries (tasks ! j)) + 1
                         else ErrorMessage (table s2 ! k) = Some ''Max retries exceeded''
                            \<and> Retries (table s2 ! k) = Retries (tasks ! j))"
      using row2 row1 by (simp add: sint_succ_below)
    with k id2
    show "\<exists>k < length (table s).
                ID (table s ! k) = ID (tasks ! j) \<and> Retries (table s ! k) = Retries (tasks ! j)
              \<and> ID (table s2 ! k) = ID (tasks ! j)
              \<and> (if fl (Suc j) (FailExec 0)
                  then table s2 ! k
                         = (table s ! k)\<lparr>Status := StatusInFlight, UpdatedAt := clk 0\<rparr>
                  else Status (table s2 ! k) = StatusFailed
                     \<and> (if Retries (tasks ! j) <s maxRetries
                         then ErrorMessage (table s2 ! k) = Some err
                            \<and> Retries (table s2 ! k) = Retries (tasks ! j) + 1
                            \<and> sint (Retries (table s2 ! k)) = sint (Retries (tasks ! j)) + 1
                         else ErrorMessage (table s2 ! k) = Some ''Max retries exceeded''
                            \<and> Retries (table s2 ! k) = Retries (tasks ! j)))"
      by blast
  qed
  have "length (table s2) = length (table s)" using len1 len2 by simp
  with fetch ne each show ?thesis by blast
qed

text \<open>
  The claim as the specification words it fails when the store refuses the updates, as it
  does when the context was cancelled during the model call: the model call has failed,
  and both tasks of the batch are still in flight, with their retries as they were.
\<close>

theorem transport_failure_fails_batch_counterexample:
  "snd (worker_pass cancelled tick cancelled_llm retry_store 10 3) = CallFailed ''context canceled''
   \<and> map Status (table (fst (worker_pass cancelled tick cancelled_llm retry_store 10 3)))
       = [StatusInFlight, StatusInFlight]
   \<and> map Retries (table (fst (worker_pass cancelled tick cancelled_llm retry_store 10 3))) = [0, 3]
   \<and> map ErrorMessage (table (fst (worker_pass cancelled tick cancelled_llm retry_store 10 3)))
       = [None, None]"
proof -
  let ?batch = "[sample_row 1 ''method1'' StatusPending 0 None None,
                 sample_row 2 ''method2'' StatusPending 3 None None]"
  let ?claimed = "mark_in_flight 10 [1, 2] retry_store"
  have fetch: "FetchPendingBatch (cancelled 0) (tick 0) retry_store 10 = (?claimed, Inr ?batch)"
    by (simp add: FetchPendingBatch_def cancelled_def tick_def retry_store_def
        sample_row_def select_pending_def)
  obtain prompt where p: "formatPrompt ?batch = Inr prompt"
    using formatPrompt_returns by blast
  have run: "worker_pass cancelled tick cancelled_llm retry_store 10 3
       = (fail_batch_transport cancelled tick 1 ?claimed 3 ''context canceled'' ?batch,
          CallFailed ''context canceled'')"
    by (simp add: worker_pass_def fetch p cancelled_llm_def)
  have final: "table (fail_batch_transport cancelled tick 1 ?claimed 3 ''context canceled'' ?batch)
       = [(sample_row 1 ''method1'' StatusInFlight 0 None None)\<lparr>UpdatedAt := 10\<rparr>,
          (sample_row 2 ''method2'' StatusInFlight 3 None None)\<lparr>UpdatedAt := 10\<rparr>]"
    by (simp add: cancelled_def tick_def retry_store_def sample_row_def
        mark_in_flight_def UpdateTaskFailure_def word_sless_alt)
  from run final show ?thesis by (simp add: sample_row_def)
qed

text \<open>
  The claim at two pending rows, one fresh and one at the cap of 3, with the model down:
  once with a healthy store and once with the store refusing every update.
\<close>

theorem transport_failure_fails_batch_witness:
  "distinct (map ID (table retry_store))
   \<and> snd (worker_pass healthy tick down_llm retry_store 10 3) = CallFailed ''connection refused''
   \<and> map Status (table (fst (worker_pass healthy tick down_llm retry_store 10 3)))
       = [StatusFailed, StatusFailed]
   \<and> map Retries (table (fst (worker_pass healthy tick down_llm retry_store 10 3))) = [1, 3]
   \<and> map ErrorMessage (table (fst (worker_pass healthy tick down_llm retry_store 10 3)))
       = [Some ''connection refused'', Some ''Max retries exceeded'']
   \<and> snd (worker_pass cancelled tick down_llm retry_store 10 3) = CallFailed ''connection refused''
   \<and> length (table (fst (worker_pass cancelled tick down_llm retry_store 10 3))) = 2"
proof -
  let ?batch = "[sample_row 1 ''method1'' StatusPending 0 None None,
                 sample_row 2 ''method2'' StatusPending 3 None None]"
  let ?claimed = "mark_in_flight 10 [1, 2] retry_store"
  have wf: "distinct (map ID (table retry_store))"
    by (simp add: retry_store_def sample_row_def)
  have fetch: "FetchPendingBatch (healthy 0) (tick 0) retry_store 10 = (?claimed, Inr ?batch)"
    by (simp add: FetchPendingBatch_def healthy_def no_faults_def tick_def retry_store_def
        sample_row_def select_pending_def)
  have fetch': "FetchPendingBatch (cancelled 0) (tick 0) retry_store 10 = (?claimed, Inr ?batch)"
    by (simp add: FetchPendingBatch_def cancelled_def tick_def retry_store_def
        sample_row_def select_pending_def)
  obtain prompt where p: "formatPrompt ?batch = Inr prompt"
    using formatPrompt_returns by blast
  have run: "worker_pass healthy tick down_llm retry_store 10 3
       = (fail_batch_transport healthy tick 1 ?claimed 3 ''connection refused'' ?batch,
          CallFailed ''connection refused'')"
    by (simp add: worker_pass_def fetch p down_llm_def)
  have run': "worker_pass cancelled tick down_llm retry_store 10 3
       = (fail_batch_transport cancelled tick 1 ?claimed 3 ''connection refused'' ?batch,
          CallFailed ''connection refused'')"
    by (simp add: worker_pass_def fetch' p down_llm_def)
  have final: "table (fail_batch_transport healthy tick 1 ?claimed 3 ''connection refused'' ?batch)
       = [(sample_row 1 ''method1'' StatusFailed 1 None (Some ''connection refused''))\<lparr>UpdatedAt := 11\<rparr>,
          (sample_row 2 ''method2'' StatusFailed 3 None (Some ''Max retries exceeded''))\<lparr>UpdatedAt := 12\<rparr>]"
    by (simp add: healthy_def no_faults_def tick_def retry_store_def sample_row_def
        mark_in_flight_def UpdateTaskFailure_def word_sless_alt)
  have len: "length (table retry_store) = 2" by (simp add: retry_store_def)
  from transport_failure_fails_batch [OF wf run'] len
  have "length (table (fail_batch_transport cancelled tick 1 ?claimed 3 ''connection refused'' ?batch)) = 2"
    by auto
  with transport_failure_fails_batch [OF wf run] run run' final wf
  show ?thesis by (simp add: sample_row_def)
qed

subsection \<open>Applying the results of a reply\<close>

lemma UpdateTaskSuccess_ids_retries:
  "map ID (table (fst (UpdateTaskSuccess f now s i src))) = map ID (table s)
   \<and> map Retries (table (fst (UpdateTaskSuccess f now s i src))) = map Retries (table s)"
  by (simp add: UpdateTaskSuccess_def comp_def)

lemma UpdateTaskFailure_same_retries:
  assumes "\<forall>k < length (table s). ID (table s ! k) = i \<longrightarrow> Retries (table s ! k) = rc"
  shows "map ID (table (fst (UpdateTaskFailure f now s i msg rc))) = map ID (table s)
   \<and> map Retries (table (fst (UpdateTaskFailure f now s i msg rc))) = map Retries (table s)"
proof -
  have "map Retries (map (\<lambda>r. if ID r = i
                                  then r\<lparr>Status := StatusFailed, ErrorMessage := Some msg,
                                         Retries := rc, UpdatedAt := now\<rparr>
                                  else r) (table s)) = map Retries (table s)"
    using assms by (intro nth_equalityI) simp_all
  then show ?thesis by (simp add: UpdateTaskFailure_def comp_def)
qed

lemma apply_result_keeps_retries:
  assumes base: "\<forall>y t. taskMap y = Some t \<longrightarrow>
             (\<forall>k < length (table s). ID (table s ! k) = ID t \<longrightarrow> Retries (table s ! k) = Retries t)"
    and inv: "map ID (table st) = map ID (table s)" "map Retries (table st) = map Retries (table s)"
  shows "map ID (table (apply_result f now st taskMap result)) = map ID (table s)
       \<and> map Retries (table (apply_result f now st taskMap result)) = map Retries (table s)"
proof (cases "taskMap (res_SymbolName result)")
  case None
  with inv show ?thesis by (simp add: apply_result_def)
next
  case (Some t)
  have len: "length (table st) = length (table s)" using inv(1) by (metis length_map)
  have stored: "\<forall>k < length (table st). ID (table st ! k) = ID t \<longrightarrow> Retries (table st ! k) = Retries t"
  proof (intro allI impI)
    fix k assume k: "k < length (table st)" and i: "ID (table st ! k) = ID t"
    have "map ID (table st) ! k = map ID (table s) ! k" using inv(1) by simp
    then have "ID (table s ! k) = ID t" using k len i by simp
    then have "Retries (table s ! k) = Retries t" using base Some k len by simp
    moreover have "map Retries (table st) ! k = map Retries (table s) ! k" using inv(2) by simp
    ultimately show "Retries (table st ! k) = Retries t" using k len by simp
  qed
  show ?thesis
  proof (cases "res_Success result")
    case True
    with Some inv show ?thesis
      by (simp add: apply_result_def UpdateTaskSuccess_ids_retries)
  next
    case False
    with Some inv show ?thesis
      by (simp add: apply_result_def UpdateTaskFailure_same_retries[OF stored])
  qed
qed

lemma apply_results_keep_retries:
  assumes base: "\<forall>y t. taskMap y = Some t \<longrightarrow>
             (\<forall>k < length (table s). ID (table s ! k) = ID t \<longrightarrow> Retries (table s ! k) = Retries t)"
  shows "map ID (table st) = map ID (table s) \<Longrightarrow> map Retries (table st) = map Retries (table s) \<Longrightarrow>
         map ID (table (apply_results fl clk k st taskMap results)) = map ID (table s)
       \<and> map Retries (table (apply_results fl clk k st taskMap results)) = map Retries (table s)"
proof (induction results arbitrary: k st)
  case Nil
  then show ?case by simp
next
  case (Cons r rs)
  from apply_result_keeps_retries[OF base Cons.prems, of "fl k" "clk k" r]
  have "map ID (table (apply_result (fl k) (clk k) st taskMap r)) = map ID (table s)"
    and "map Retries (table (apply_result (fl k) (clk k) st taskMap r)) = map Retries (table s)"
    by simp_all
  then show ?case using Cons.IH by simp
qed

lemma batch_retries_stored:
  assumes wf: "distinct (map ID (table s))"
    and fetch: "FetchPendingBatch f now s n = (s1, Inr tasks)"
  shows "\<forall>y t. build_taskMap tasks y = Some t \<longrightarrow>
             (\<forall>k < length (table s). ID (table s ! k) = ID t \<longrightarrow> Retries (table s ! k) = Retries t)"
proof (intro allI impI)
  fix y t k
  assume "build_taskMap tasks y = Some t" and k: "k < length (table s)"
    and i: "ID (table s ! k) = ID t"
  then have "t \<in> set tasks" by (simp add: build_taskMap_Some)
  with FetchPendingBatch_batch_rows(2)[OF wf fetch]
  obtain j where j: "j < length (table s)" "ID (table s ! j) = ID t" "Retries (table s ! j) = Retries t"
    by blast
  have "map ID (table s) ! j = map ID (table s) ! k" using j k i by simp
  moreover have "j < length (map ID (table s))" "k < length (map ID (table s))" using j k by simp_all
  ultimately have "j = k" using wf by (metis nth_eq_iff_index_eq)
  with j show "Retries (table s ! k) = Retries t" by simp
qed

text \<open>
  One result applied to the store \<open>st\<close> that earlier results of the reply left, for a
  batch claimed from a store with pairwise different ids.
\<close>

lemma apply_result_failure_step:
  assumes wf: "distinct (map ID (table s))"
    and fetch: "FetchPendingBatch f0 t0 s n = (s1, Inr tasks)"
    and st: "st = apply_results fl clk 1 s1 (build_taskMap tasks) earlier"
    and st': "st' = apply_result f now st (build_taskMap tasks) result"
  shows "((\<forall>t \<in> set tasks. SymbolName t \<noteq> res_SymbolName result) \<longrightarrow> st' = st)
       \<and> ((\<exists>t \<in> set tasks. SymbolName t = res_SymbolName result)
            \<and> \<not> res_Success result \<longrightarrow>
           (\<exists>task \<in> set tasks. SymbolName task = res_SymbolName result
              \<and> task = last (filter (\<lambda>t. SymbolName t = res_SymbolName result) tasks)
              \<and> (\<exists>k < length (table st). ID (table st ! k) = ID task)
              \<and> (\<forall>k < length (table st).
                    (ID (table st ! k) = ID task \<longrightarrow> Retries (table st ! k) = Retries task)
                  \<and> table st' ! k =
                      (if ID (table st ! k) = ID task \<and> \<not> f (FailExec 0)
                       then (table st ! k)\<lparr>Status := StatusFailed,
                                            ErrorMessage := Some (res_ErrorMessage result),
                                            UpdatedAt := now\<rparr>
                       else table st ! k))))"
proof -
  have unknown: "(\<forall>t \<in> set tasks. SymbolName t \<noteq> res_SymbolName result) \<longrightarrow> st' = st"
  proof
    assume "\<forall>t \<in> set tasks. SymbolName t \<noteq> res_SymbolName result"
    then have "build_taskMap tasks (res_SymbolName result) = None"
      by (auto simp: build_taskMap_None)
    then show "st' = st" by (simp add: st' apply_result_def)
  qed
  have known: "(\<exists>t \<in> set tasks. SymbolName t = res_SymbolName result)
            \<and> \<not> res_Success result \<longrightarrow>
           (\<exists>task \<in> set tasks. SymbolName task = res_SymbolName result
              \<and> task = last (filter (\<lambda>t. SymbolName t = res_SymbolName result) tasks)
              \<and> (\<exists>k < length (table st). ID (table st ! k) = ID task)
              \<and> (\<forall>k < length (table st).
                    (ID (table st ! k) = ID task \<longrightarrow> Retries (table st ! k) = Retries task)
                  \<and> table st' ! k =
                      (if ID (table st ! k) = ID task \<and> \<not> f (FailExec 0)
                       then (table st ! k)\<lparr>Status := StatusFailed,
                                            ErrorMessage := Some (res_ErrorMessage result),
                                            UpdatedAt := now\<rparr>
                       else table st ! k)))"
  proof
    assume a: "(\<exists>t \<in> set tasks. SymbolName t = res_SymbolName result)
            \<and> \<not> res_Success result"
    then obtain t where "t \<in> set tasks" "SymbolName t = res_SymbolName result" by blast
    then have "res_SymbolName result \<in> SymbolName ` set tasks" by (metis imageI)
    then have "build_taskMap tasks (res_SymbolName result) \<noteq> None"
      by (simp add: build_taskMap_None)
    then obtain task where tm: "build_taskMap tasks (res_SymbolName result) = Some task" by blast
    then have task: "task \<in> set tasks" "SymbolName task = res_SymbolName result"
      "task = last (filter (\<lambda>t. SymbolName t = res_SymbolName result) tasks)"
      by (simp_all add: build_taskMap_Some build_taskMap_last)
    note rows = FetchPendingBatch_batch_rows[OF wf fetch]
    note base = batch_retries_stored[OF wf fetch]
    have inv: "map ID (table st) = map ID (table s)" "map Retries (table st) = map Retries (table s)"
      using apply_results_keep_retries[OF base rows(3) rows(4), of fl clk 1 earlier]
      by (simp_all add: st)
    have len: "length (table st) = length (table s)" using inv(1) by (metis length_map)
    from rows(2) task(1) obtain k0 where k0: "k0 < length (table s)" "ID (table s ! k0) = ID task"
      by blast
    have "map ID (table st) ! k0 = map ID (table s) ! k0" using inv(1) by simp
    then have ex: "\<exists>k < length (table st). ID (table st ! k) = ID task"
      using k0 len by auto
    have stored: "\<forall>k < length (table st). ID (table st ! k) = ID task \<longrightarrow> Retries (table st ! k) = Retries task"
    proof (intro allI impI)
      fix k assume k: "k < length (table st)" and i: "ID (table st ! k) = ID task"
      have "map ID (table st) ! k = map ID (table s) ! k" using inv(1) by simp
      then have "ID (table s ! k) = ID task" using k len i by simp
      then have "Retries (table s ! k) = Retries task" using base tm k len by simp
      moreover have "map Retries (table st) ! k = map Retries (table s) ! k" using inv(2) by simp
      ultimately show "Retries (table st ! k) = Retries task" using k len by simp
    qed
    have step: "st' = fst (UpdateTaskFailure f now st (ID task) (res_ErrorMessage result) (Retries task))"
      using a tm by (simp add: st' apply_result_def)
    have rowsafter: "\<forall>k < length (table st).
                  table st' ! k =
                      (if ID (table st ! k) = ID task \<and> \<not> f (FailExec 0)
                       then (table st ! k)\<lparr>Status := StatusFailed,
                                            ErrorMessage := Some (res_ErrorMessage result),
                                            UpdatedAt := now\<rparr>
                       else table st ! k)"
    proof (intro allI impI)
      fix k assume k: "k < length (table st)"
      show "table st' ! k =
                      (if ID (table st ! k) = ID task \<and> \<not> f (FailExec 0)
                       then (table st ! k)\<lparr>Status := StatusFailed,
                                            ErrorMessage := Some (res_ErrorMessage result),
                                            UpdatedAt := now\<rparr>
                       else table st ! k)"
      proof (cases "f (FailExec 0)")
        case True
        then have "st' = st" by (simp add: step UpdateTaskFailure_refused)
        with True show ?thesis by simp
      next
        case accepted: False
        show ?thesis
        proof (cases "ID (table st ! k) = ID task")
          case True
          with stored k have "Retries (table st ! k) = Retries task" by simp
          then have "(table st ! k)\<lparr>Retries := Retries task\<rparr> = table st ! k" by simp
          then have "(table st ! k)\<lparr>Status := StatusFailed,
                        ErrorMessage := Some (res_ErrorMessage result),
                        Retries := Retries task, UpdatedAt := now\<rparr>
                   = (table st ! k)\<lparr>Status := StatusFailed,
                        ErrorMessage := Some (res_ErrorMessage result), UpdatedAt := now\<rparr>"
            by (metis Task.update_convs(5,6,8,10) Task.surjective)
          with True accepted k show ?thesis by (simp add: step UpdateTaskFailure_nth)
        next
          case False
          with accepted k show ?thesis by (simp add: step UpdateTaskFailure_nth)
        qed
      qed
    qed
    from task ex stored rowsafter
    show "\<exists>task \<in> set tasks. SymbolName task = res_SymbolName result
              \<and> task = last (filter (\<lambda>t. SymbolName t = res_SymbolName result) tasks)
              \<and> (\<exists>k < length (table st). ID (table st ! k) = ID task)
              \<and> (\<forall>k < length (table st).
                    (ID (table st ! k) = ID task \<longrightarrow> Retries (table st ! k) = Retries task)
                  \<and> table st' ! k =
                      (if ID (table st ! k) = ID task \<and> \<not> f (FailExec 0)
                       then (table st ! k)\<lparr>Status := StatusFailed,
                                            ErrorMessage := Some (res_ErrorMessage result),
                                            UpdatedAt := now\<rparr>
                       else table st ! k))"
      by blast
  qed
  from unknown known show ?thesis by blast
qed

lemma apply_results_snoc:
  "apply_results fl clk k s taskMap (xs @ [x]) =
     apply_result (fl (k + length xs)) (clk (k + length xs))
       (apply_results fl clk k s taskMap xs) taskMap x"
  by (induction xs arbitrary: k s) simp_all

lemma worker_pass_reply:
  assumes fetch: "FetchPendingBatch (fl 0) (clk 0) s batchSize = (s1, Inr tasks)"
    and ne: "tasks \<noteq> []"
  shows "worker_pass fl clk (\<lambda>_. Inr results) s batchSize maxRetries =
           (apply_results fl clk 1 s1 (build_taskMap tasks) results, Processed)"
proof -
  obtain prompt where "formatPrompt tasks = Inr prompt"
    using formatPrompt_returns by blast
  with fetch ne show ?thesis by (simp add: worker_pass_def)
qed

lemma worker_pass_Processed:
  assumes run: "worker_pass fl clk llm s batchSize maxRetries = (s2, Processed)"
  shows "\<exists>s1 tasks prompt results.
           FetchPendingBatch (fl 0) (clk 0) s batchSize = (s1, Inr tasks) \<and> tasks \<noteq> []
         \<and> formatPrompt tasks = Inr prompt \<and> llm prompt = Inr results
         \<and> s2 = apply_results fl clk 1 s1 (build_taskMap tasks) results"
proof (cases "FetchPendingBatch (fl 0) (clk 0) s batchSize")
  case (Pair s1 res)
  show ?thesis
  proof (cases res)
    case (Inl e)
    with Pair run show ?thesis by (simp add: worker_pass_def)
  next
    case (Inr tasks)
    obtain prompt where p: "formatPrompt tasks = Inr prompt"
      using formatPrompt_returns by blast
    show ?thesis
    proof (cases "llm prompt")
      case (Inl e)
      with Pair \<open>res = Inr tasks\<close> p run show ?thesis
        by (simp add: worker_pass_def split: if_splits)
    next
      case (Inr results)
      with Pair \<open>res = Inr tasks\<close> p run have "tasks \<noteq> []"
        "s2 = apply_results fl clk 1 s1 (build_taskMap tasks) results"
        by (auto simp: worker_pass_def split: if_splits)
      with Pair \<open>res = Inr tasks\<close> p Inr show ?thesis by simp
    qed
  qed
qed

text \<open>
  Claim C5, as the code has it. Take a store with pairwise different ids and a pass of
  the worker that received a reply. The pass claimed a non-empty batch, and its final
  store is what applying the results one after the other gives. For result \<open>i\<close> of the
  reply, with the store before and after it:
  a result whose symbol no task of the batch has changes nothing;
  a result that reports failure for a symbol of the batch is addressed to one task, the
  last one of the batch with that symbol (the one the symbol map holds), whose row
  exists. If the store accepts the update (store call \<open>i + 1\<close> of the pass), that row
  becomes a failed row with the result's error message, keeping the retry count it had,
  which is the task's; if the store refuses it, the row is unchanged. Every other row,
  also that of another task with the same symbol, is unchanged.
\<close>

theorem semantic_failure_keeps_retries:
  assumes wf: "distinct (map ID (table s))"
    and run: "worker_pass fl clk llm s batchSize maxRetries = (s2, Processed)"
  shows "\<exists>tasks prompt results.
           snd (FetchPendingBatch (fl 0) (clk 0) s batchSize) = Inr tasks \<and> tasks \<noteq> []
         \<and> formatPrompt tasks = Inr prompt \<and> llm prompt = Inr results
         \<and> store_after fl clk s batchSize maxRetries results 0
             = fst (FetchPendingBatch (fl 0) (clk 0) s batchSize)
         \<and> store_after fl clk s batchSize maxRetries results (length results) = s2
         \<and> (\<forall>i < length results.
               ((\<forall>t \<in> set tasks. SymbolName t \<noteq> res_SymbolName (results ! i)) \<longrightarrow>
                  store_after fl clk s batchSize maxRetries results (Suc i)
                    = store_after fl clk s batchSize maxRetries results i)
             \<and> ((\<exists>t \<in> set tasks. SymbolName t = res_SymbolName (results ! i))
                   \<and> \<not> res_Success (results ! i) \<longrightarrow>
                 (\<exists>task \<in> set tasks. SymbolName task = res_SymbolName (results ! i)
                    \<and> task = last (filter (\<lambda>t. SymbolName t = res_SymbolName (results ! i)) tasks)
                    \<and> (\<exists>k < length (table (store_after fl clk s batchSize maxRetries results i)).
                          ID (table (store_after fl clk s batchSize maxRetries results i) ! k) = ID task)
                    \<and> (\<forall>k < length (table (store_after fl clk s batchSize maxRetries results i)).
                          (ID (table (store_after fl clk s batchSize maxRetries results i) ! k) = ID task
                             \<longrightarrow> Retries (table (store_after fl clk s batchSize maxRetries results i) ! k)
                                   = Retries task)
                        \<and> table (store_after fl clk s batchSize maxRetries results (Suc i)) ! k =
                            (if ID (table (store_after fl clk s batchSize maxRetries results i) ! k) = ID task
                                \<and> \<not> fl (Suc i) (FailExec 0)
                             then (table (store_after fl clk s batchSize maxRetries results i) ! k)
                                    \<lparr>Status := StatusFailed,
                                     ErrorMessage := Some (res_ErrorMessage (results ! i)),
                                     UpdatedAt := clk (Suc i)\<rparr>
                             else table (store_after fl clk s batchSize maxRetries results i) ! k)))))"
proof -
  from worker_pass_Processed[OF run] obtain s1 tasks prompt results where
    fetch: "FetchPendingBatch (fl 0) (clk 0) s batchSize = (s1, Inr tasks)"
    and ne: "tasks \<noteq> []"
    and p: "formatPrompt tasks = Inr prompt" and reply: "llm prompt = Inr results"
    and s2: "s2 = apply_results fl clk 1 s1 (build_taskMap tasks) results"
    by blast
  have after: "\<And>i. store_after fl clk s batchSize maxRetries results i
                  = apply_results fl clk 1 s1 (build_taskMap tasks) (take i results)"
    by (simp add: store_after_def worker_pass_reply[where fl = fl and clk = clk, OF fetch ne])
  have first: "store_after fl clk s batchSize maxRetries results 0
             = fst (FetchPendingBatch (fl 0) (clk 0) s batchSize)"
    by (simp add: after fetch)
  have last: "store_after fl clk s batchSize maxRetries results (length results) = s2"
    by (simp add: after s2)
  have steps: "\<forall>i < length results.
               ((\<forall>t \<in> set tasks. SymbolName t \<noteq> res_SymbolName (results ! i)) \<longrightarrow>
                  store_after fl clk s batchSize maxRetries results (Suc i)
                    = store_after fl clk s batchSize maxRetries results i)
             \<and> ((\<exists>t \<in> set tasks. SymbolName t = res_SymbolName (results ! i))
                   \<and> \<not> res_Success (results ! i) \<longrightarrow>
                 (\<exists>task \<in> set tasks. SymbolName task = res_SymbolName (results ! i)
                    \<and> task = last (filter (\<lambda>t. SymbolName t = res_SymbolName (results ! i)) tasks)
                    \<and> (\<exists>k < length (table (store_after fl clk s batchSize maxRetries results i)).
                          ID (table (store_after fl clk s batchSize maxRetries results i) ! k) = ID task)
                    \<and> (\<forall>k < length (table (store_after fl clk s batchSize maxRetries results i)).
                          (ID (table (store_after fl clk s batchSize maxRetries results i) ! k) = ID task
                             \<longrightarrow> Retries (table (store_after fl clk s batchSize maxRetries results i) ! k)
                                   = Retries task)
                        \<and> table (store_after fl clk s batchSize maxRetries results (Suc i)) ! k =
                            (if ID (table (store_after fl clk s batchSize maxRetries results i) ! k) = ID task
                                \<and> \<not> fl (Suc i) (FailExec 0)
                             then (table (store_after fl clk s batchSize maxRetries results i) ! k)
                                    \<lparr>Status := StatusFailed,
                                     ErrorMessage := Some (res_ErrorMessage (results ! i)),
                                     UpdatedAt := clk (Suc i)\<rparr>
                             else table (store_after fl clk s batchSize maxRetries results i) ! k))))"
  proof (intro allI impI)
    fix i assume i: "i < length results"
    have st: "store_after fl clk s batchSize maxRetries results i
                = apply_results fl clk 1 s1 (build_taskMap tasks) (take i results)"
      by (rule after)
    have "take (Suc i) results = take i results @ [results ! i]"
      using i by (rule take_Suc_conv_app_nth)
    then have st': "store_after fl clk s batchSize maxRetries results (Suc i)
                = apply_result (fl (Suc i)) (clk (Suc i))
                    (store_after fl clk s batchSize maxRetries results i)
                    (build_taskMap tasks) (results ! i)"
      using i by (simp add: after apply_results_snoc)
    show "((\<forall>t \<in> set tasks. SymbolName t \<noteq> res_SymbolName (results ! i)) \<longrightarrow>
                  store_after fl clk s batchSize maxRetries results (Suc i)
                    = store_after fl clk s batchSize maxRetries results i)
             \<and> ((\<exists>t \<in> set tasks. SymbolName t = res_SymbolName (results ! i))
                   \<and> \<not> res_Success (results ! i) \<longrightarrow>
                 (\<exists>task \<in> set tasks. SymbolName task = res_SymbolName (results ! i)
                    \<and> task = last (filter (\<lambda>t. SymbolName t = res_SymbolName (results ! i)) tasks)
                    \<and> (\<exists>k < length (table (store_after fl clk s batchSize maxRetries results i)).
                          ID (table (store_after fl clk s batchSize maxRetries results i) ! k) = ID task)
                    \<and> (\<forall>k < length (table (store_after fl clk s batchSize maxRetries results i)).
                          (ID (table (store_after fl clk s batchSize maxRetries results i) ! k) = ID task
                             \<longrightarrow> Retries (table (store_after fl clk s batchSize maxRetries results i) ! k)
                                   = Retries task)
                        \<and> table (store_after fl clk s batchSize maxRetries results (Suc i)) ! k =
                            (if ID (table (store_after fl clk s batchSize maxRetries results i) ! k) = ID task
                                \<and> \<not> fl (Suc i) (FailExec 0)
                             then (table (store_after fl clk s batchSize maxRetries results i) ! k)
                                    \<lparr>Status := StatusFailed,
                                     ErrorMessage := Some (res_ErrorMessage (results ! i)),
                                     UpdatedAt := clk (Suc i)\<rparr>
                             else table (store_after fl clk s batchSize maxRetries results i) ! k))))"
      by (rule apply_result_failure_step[OF wf fetch st st'])
  qed
  from fetch ne p reply first last steps show ?thesis by auto
qed

text \<open>
  The claim as the specification words it fails when two tasks of the batch share a
  symbol: the failure reported for the symbol reaches the second task only, and the
  first, whose symbol the result also matches, stays in flight.
\<close>

theorem semantic_failure_keeps_retries_counterexample:
  "map SymbolName (table shared_symbol_store) = [''m'', ''m'']
   \<and> map Status (table shared_symbol_store) = [StatusPending, StatusPending]
   \<and> snd (worker_pass healthy tick shared_symbol_llm shared_symbol_store 10 3) = Processed
   \<and> map Status (table (fst (worker_pass healthy tick shared_symbol_llm shared_symbol_store 10 3)))
       = [StatusInFlight, StatusFailed]"
proof -
  let ?batch = "[(sample_row 1 ''m'' StatusPending 0 None None)\<lparr>ClassName := ''A''\<rparr>,
                 (sample_row 2 ''m'' StatusPending 0 None None)\<lparr>ClassName := ''B''\<rparr>]"
  let ?claimed = "mark_in_flight 10 [1, 2] shared_symbol_store"
  let ?reply = "[\<lparr>res_SymbolName = ''m'', res_DecompiledSource = [], res_Success = False,
                  res_ErrorMessage = ''cannot decompile''\<rparr>]"
  have fetch: "FetchPendingBatch (healthy 0) (tick 0) shared_symbol_store 10 = (?claimed, Inr ?batch)"
    by (simp add: FetchPendingBatch_def healthy_def no_faults_def tick_def
        shared_symbol_store_def sample_row_def select_pending_def)
  have ne: "?batch \<noteq> []" by simp
  have run: "worker_pass healthy tick shared_symbol_llm shared_symbol_store 10 3
       = (apply_results healthy tick 1 ?claimed (build_taskMap ?batch) ?reply, Processed)"
    unfolding shared_symbol_llm_def
    by (rule worker_pass_reply[where fl = healthy and clk = tick, OF fetch ne])
  have final: "map Status (table (apply_results healthy tick 1 ?claimed (build_taskMap ?batch) ?reply))
       = [StatusInFlight, StatusFailed]"
    by (simp add: healthy_def no_faults_def tick_def shared_symbol_store_def sample_row_def
        mark_in_flight_def build_taskMap_def apply_result_def UpdateTaskFailure_def)
  have before: "map SymbolName (table shared_symbol_store) = [''m'', ''m'']"
    "map Status (table shared_symbol_store) = [StatusPending, StatusPending]"
    by (simp_all add: shared_symbol_store_def sample_row_def)
  from run final before show ?thesis by simp
qed

text \<open>
  The claim at the test's store with a batch size of 2 and a reply of two results: a
  failure for method2 and a result for a symbol outside the batch.
\<close>

theorem semantic_failure_keeps_retries_witness:
  "distinct (map ID (table test_store))
   \<and> snd (worker_pass healthy tick failing_llm test_store 2 3) = Processed
   \<and> map Status (table (fst (worker_pass healthy tick failing_llm test_store 2 3)))
       = [StatusInFlight, StatusFailed, StatusPending, StatusPending]
   \<and> map Retries (table (fst (worker_pass healthy tick failing_llm test_store 2 3)))
       = [0, 0, 0, 0]
   \<and> map ErrorMessage (table (fst (worker_pass healthy tick failing_llm test_store 2 3)))
       = [None, Some ''cannot decompile'', None, None]
   \<and> store_after healthy tick test_store 2 3 [cannot_result, stray_result] 2
       = fst (worker_pass healthy tick failing_llm test_store 2 3)
   \<and> store_after healthy tick test_store 2 3 [cannot_result, stray_result] 2
       = store_after healthy tick test_store 2 3 [cannot_result, stray_result] 1"
proof -
  let ?batch = "[(sample_row 1 ''method1'' StatusPending 0 None None)\<lparr>CreatedAt := 5, UpdatedAt := 5\<rparr>,
                 (sample_row 2 ''method2'' StatusPending 0 None None)\<lparr>CreatedAt := 5, UpdatedAt := 5\<rparr>]"
  let ?claimed = "mark_in_flight 10 [1, 2] test_store"
  have wf: "distinct (map ID (table test_store))"
    by (simp add: test_store_def sample_row_def)
  have fetch: "FetchPendingBatch (healthy 0) (tick 0) test_store 2 = (?claimed, Inr ?batch)"
    by (simp add: FetchPendingBatch_def healthy_def no_faults_def tick_def
        test_store_def sample_row_def select_pending_def)
  have ne: "?batch \<noteq> []" by simp
  have run: "worker_pass healthy tick failing_llm test_store 2 3
       = (apply_results healthy tick 1 ?claimed (build_taskMap ?batch) [cannot_result, stray_result],
          Processed)"
    unfolding failing_llm_def
    by (rule worker_pass_reply[where fl = healthy and clk = tick, OF fetch ne])
  have final: "table (apply_results healthy tick 1 ?claimed (build_taskMap ?batch)
                       [cannot_result, stray_result])
       = [(sample_row 1 ''method1'' StatusInFlight 0 None None)\<lparr>CreatedAt := 5, UpdatedAt := 10\<rparr>,
          (sample_row 2 ''method2'' StatusFailed 0 None (Some ''cannot decompile''))
             \<lparr>CreatedAt := 5, UpdatedAt := 11\<rparr>,
          (sample_row 3 ''method3'' StatusPending 0 None None)\<lparr>CreatedAt := 5, UpdatedAt := 5\<rparr>,
          (sample_row 4 ''method4'' StatusPending 0 None None)\<lparr>CreatedAt := 5, UpdatedAt := 5\<rparr>]"
    by (simp add: healthy_def no_faults_def tick_def test_store_def sample_row_def
        mark_in_flight_def build_taskMap_def apply_result_def UpdateTaskFailure_def
        cannot_result_def stray_result_def)
  from semantic_failure_keeps_retries [OF wf run] obtain tasks prompt results where
    t: "snd (FetchPendingBatch (healthy 0) (tick 0) test_store 2) = Inr tasks"
    and r: "failing_llm prompt = Inr results"
    and fin: "store_after healthy tick test_store 2 3 results (length results)
               = apply_results healthy tick 1 ?claimed (build_taskMap ?batch)
                   [cannot_result, stray_result]"
    and steps: "\<forall>i < length results.
         ((\<forall>t \<in> set tasks. SymbolName t \<noteq> res_SymbolName (results ! i)) \<longrightarrow>
                  store_after healthy tick test_store 2 3 results (Suc i)
                    = store_after healthy tick test_store 2 3 results i)"
    by blast
  from r have results: "results = [cannot_result, stray_result]"
    by (simp add: failing_llm_def)
  from t fetch have tasks: "tasks = ?batch" by simp
  have l: "length [cannot_result, stray_result] = 2" by simp
  have one: "(1::nat) < 2" by simp
  have stray: "\<forall>t \<in> set tasks. SymbolName t \<noteq> res_SymbolName ([cannot_result, stray_result] ! 1)"
    by (simp add: tasks stray_result_def sample_row_def)
  note same = steps[unfolded results l, rule_format, OF one stray[rule_format], unfolded Suc_1]
  have whole: "store_after healthy tick test_store 2 3 [cannot_result, stray_result] 2
       = fst (worker_pass healthy tick failing_llm test_store 2 3)"
    unfolding run fst_conv by (rule fin[unfolded results l])
  have part: "distinct (map ID (table test_store))
   \<and> snd (worker_pass healthy tick failing_llm test_store 2 3) = Processed
   \<and> map Status (table (fst (worker_pass healthy tick failing_llm test_store 2 3)))
       = [StatusInFlight, StatusFailed, StatusPending, StatusPending]
   \<and> map Retries (table (fst (worker_pass healthy tick failing_llm test_store 2 3)))
       = [0, 0, 0, 0]
   \<and> map ErrorMessage (table (fst (worker_pass healthy tick failing_llm test_store 2 3)))
       = [None, Some ''cannot decompile'', None, None]"
    using wf run final by (simp add: sample_row_def)
  from part whole same show ?thesis by blast
qed

subsection \<open>The primary key\<close>

text \<open>
  The ids of the rows are pairwise different in the empty store, and every operation of
  the store and every pass of the worker keeps them so: an insert takes an id above all
  others, and no update writes the id.
\<close>

lemma le_foldr_max: "(x::int) \<in> set xs \<Longrightarrow> x \<le> foldr max xs 0"
  by (induction xs) auto

lemma next_id_fresh: "next_id s \<notin> set (map ID (table s))"
proof
  assume "next_id s \<in> set (map ID (table s))"
  then have "next_id s \<le> foldr max (map ID (table s)) 0" by (rule le_foldr_max)
  then show False by (simp add: next_id_def)
qed

lemma insert_or_ignore_ids_distinct:
  "distinct (map ID (table s)) \<Longrightarrow>
   distinct (map ID (table (insert_or_ignore now s c y a st)))"
  using next_id_fresh[of s] by (simp add: insert_or_ignore_def)

lemma exec_inserts_ids_distinct:
  "exec_inserts f now i s tasks = Inr s' \<Longrightarrow> distinct (map ID (table s)) \<Longrightarrow>
   distinct (map ID (table s'))"
proof (induction tasks arbitrary: i s)
  case Nil
  then show ?case by simp
next
  case (Cons t ts)
  let ?s1 = "insert_or_ignore now s (ClassName t) (SymbolName t) (AssemblyCode t) StatusPending"
  from Cons.prems have rest: "exec_inserts f now (Suc i) ?s1 ts = Inr s'"
    by (auto split: if_splits)
  from Cons.prems(2) have "distinct (map ID (table ?s1))"
    by (rule insert_or_ignore_ids_distinct)
  with Cons.IH[OF rest] show ?case .
qed

lemma ids_distinct_kept:
  assumes "distinct (map ID (table s))"
  shows "distinct (map ID (table (fst (AddTasks f now s tasks))))"
    and "distinct (map ID (table (fst (ResetInFlightTasks f s))))"
    and "distinct (map ID (table (worker_passes ps s)))"
proof -
  show "distinct (map ID (table (fst (AddTasks f now s tasks))))"
  proof (cases "AddTasks f now s tasks")
    case (Pair s' e)
    show ?thesis
    proof (cases e)
      case None
      with Pair have "exec_inserts f now 0 s tasks = Inr s'" by (simp add: AddTasks_success_exec)
      then have "distinct (map ID (table s'))" using assms by (rule exec_inserts_ids_distinct)
      with Pair show ?thesis by simp
    next
      case (Some err)
      with Pair have "s' = s" by (simp add: AddTasks_error_unchanged)
      with Pair assms show ?thesis by simp
    qed
  qed
  have "map ID (table (fst (ResetInFlightTasks f s))) = map ID (table s)"
    by (simp add: ResetInFlightTasks_def comp_def)
  with assms show "distinct (map ID (table (fst (ResetInFlightTasks f s))))" by simp
  have "map ID (table (worker_passes ps s)) = map ID (table s)"
    using same_rows_outside_worker_passes[of s ps] by (simp add: same_rows_outside_def)
  with assms show "distinct (map ID (table (worker_passes ps s)))" by simp
qed

lemma ids_distinct_empty: "distinct (map ID (table empty_store))"
  by (simp add: empty_store_def)

end
